(* ===== verification/Prelude.thy ===== *)
theory Prelude
  imports Main "HOL-Library.Multiset"
begin

text \<open>
  Shared vocabulary of the subscription development: the names of the string-valued
  identifiers of \<open>src/subscription.js\<close>, the theorem collections the component theories
  fill, and generic facts on lists and multisets that the component proofs use.
\<close>

type_synonym sub_id = string
  \<comment> \<open>a subscription id: the Redis key of its metadata and its pub/sub channel name\<close>
type_synonym channel = string
type_synonym redis_error = string
  \<comment> \<open>the \<open>err\<close> argument a Redis or Mongo callback receives, when not null\<close>

named_theorems handler_defs
  \<comment> \<open>the definitions of the handlers of one \<open>Subscription\<close> object\<close>
named_theorems world_simps
  \<comment> \<open>how the effect helpers (emit, issue, throw) act on the fields of the world\<close>

text \<open>A list splits at most one way at its first element satisfying \<open>P\<close>.\<close>

lemma split_first_unique:
  assumes "pre @ x # post = pre' @ x' # post'" and "P x" and "P x'"
    and "filter P pre = []" and "filter P pre' = []"
  shows "pre = pre' \<and> x = x' \<and> post = post'"
  using assms
proof (induction pre arbitrary: pre')
  case Nil
  then show ?case by (cases pre') auto
next
  case (Cons a pre)
  then show ?case by (cases pre') (auto split: if_splits)
qed

end
