(* ===== verification/Js_Values.thy ===== *)
theory Js_Values
  imports Prelude
begin

text \<open>
  The small part of JavaScript's value semantics that \<open>src/subscription.js\<close> relies on:
  property reads on a string (\<open>data.i\<close>, \<open>data.f\<close>, \<open>data.c\<close> in \<open>get\<close>), the
  \<open>||\<close> operator (\<open>data.f || {}\<close>), string conversion in concatenation (the not-found
  message of \<open>fetch\<close>), and the argument coercion of \<open>JSON.parse\<close>. These are
  language semantics, not code of the repository; they are modelled from the ECMAScript
  rules for the cases the code reaches. \<open>JSON.parse\<close> itself is a parameter of the
  model (a function \<open>string \<Rightarrow> 'v option\<close>, \<open>None\<close> when it throws).
\<close>

datatype js =
    JUndefined
  | JNull
  | JBool bool
  | JNum int
  | JStr string
  | JObj "(string \<times> js) list"

text \<open>Decimal rendering of a natural number, as \<open>String(n)\<close> does.\<close>

fun show_nat :: "nat \<Rightarrow> string" where
  "show_nat n =
     (if n < 10 then [char_of (48 + n)]
      else show_nat (n div 10) @ [char_of (48 + n mod 10)])"

declare show_nat.simps [simp del]

definition js_to_string :: "js \<Rightarrow> string" where
  "js_to_string v = (case v of
      JUndefined \<Rightarrow> ''undefined''
    | JNull \<Rightarrow> ''null''
    | JBool b \<Rightarrow> (if b then ''true'' else ''false'')
    | JNum i \<Rightarrow> (if i < 0 then CHR ''-'' # show_nat (nat (- i)) else show_nat (nat i))
    | JStr s \<Rightarrow> s
    | JObj _ \<Rightarrow> ''[object Object]'')"

text \<open>ToBoolean (NaN is not in the value type).\<close>

fun truthy :: "js \<Rightarrow> bool" where
  "truthy JUndefined = False"
| "truthy JNull = False"
| "truthy (JBool b) = b"
| "truthy (JNum i) = (i \<noteq> 0)"
| "truthy (JStr s) = (s \<noteq> [])"
| "truthy (JObj _) = True"

definition js_or :: "js \<Rightarrow> js \<Rightarrow> js" where
  "js_or a b = (if truthy a then a else b)"

text \<open>
  A property read \<open>s.k\<close> on a primitive string: its own properties are \<open>length\<close> and
  the canonical indices \<open>0 .. length - 1\<close>; any other name that \<open>String.prototype\<close>
  does not define reads as \<open>undefined\<close>. The names the code reads (\<open>i\<close>, \<open>f\<close>,
  \<open>c\<close>) are not prototype members.
\<close>

definition str_member :: "string \<Rightarrow> string \<Rightarrow> js" where
  "str_member s k =
     (if k = ''length'' then JNum (int (length s))
      else case find (\<lambda>n. show_nat n = k) [0..<length s] of
             Some n \<Rightarrow> JStr [s ! n]
           | None \<Rightarrow> JUndefined)"

text \<open>\<open>JSON.parse(x)\<close> first converts its argument to a string: a Redis nil reply
  (JavaScript \<open>null\<close>) is parsed as the text \<open>null\<close>.\<close>

definition json_arg :: "string option \<Rightarrow> string" where
  "json_arg d = (case d of None \<Rightarrow> ''null'' | Some s \<Rightarrow> s)"

subsection \<open>Facts\<close>

definition is_digit :: "char \<Rightarrow> bool" where
  "is_digit c \<longleftrightarrow> 48 \<le> (of_char c :: nat) \<and> (of_char c :: nat) < 58"

lemma is_digit_char_of: "(n::nat) < 10 \<Longrightarrow> is_digit (char_of (48 + n))"
  by (simp add: is_digit_def)

lemma show_nat_digits: "c \<in> set (show_nat n) \<Longrightarrow> is_digit c"
proof (induction n rule: show_nat.induct)
  case (1 n)
  show ?case
  proof (cases "n < 10")
    case True
    with "1.prems" show ?thesis
      by (auto simp: show_nat.simps [of n] intro: is_digit_char_of)
  next
    case False
    with "1.prems" "1.IH" show ?thesis
      by (auto simp: show_nat.simps [of n] intro: is_digit_char_of)
  qed
qed

text \<open>A name with a non-digit character that is not \<open>length\<close> reads as undefined.\<close>

lemma str_member_name:
  assumes "k \<noteq> ''length''" and "c \<in> set k" and "\<not> is_digit c"
  shows "str_member s k = JUndefined"
proof -
  have "\<forall>n. show_nat n \<noteq> k"
    using assms(2,3) show_nat_digits by blast
  then have "find (\<lambda>n. show_nat n = k) [0..<length s] = None"
    by (simp add: find_None_iff)
  with assms(1) show ?thesis by (simp add: str_member_def)
qed

lemma str_member_metadata_keys [simp]:
  "str_member s ''i'' = JUndefined"
  "str_member s ''f'' = JUndefined"
  "str_member s ''c'' = JUndefined"
proof -
  have "\<not> is_digit CHR ''i''" "\<not> is_digit CHR ''f''" "\<not> is_digit CHR ''c''"
    by (simp_all add: is_digit_def)
  then show "str_member s ''i'' = JUndefined" "str_member s ''f'' = JUndefined"
      "str_member s ''c'' = JUndefined"
    by (auto intro: str_member_name)
qed

end
