(* ===== verification/Subscription.thy ===== *)
theory Subscription
  imports Js_Values
begin

text \<open>
  One \<open>Subscription\<close> object of \<open>src/subscription.js\<close> and the part of the world it
  acts on. The object's own fields are the record \<open>subscription\<close>; the record
  \<open>world\<close> extends it with what the object changes outside itself: the events its
  external listeners have received (\<open>trace\<close>), the calls it has made to Redis and
  Mongo (\<open>issued\<close>), the callbacks of those calls that have not run yet
  (\<open>pending\<close>), and the uncaught exception that ended the process, if any
  (\<open>exn\<close>). Each method of the prototype and each callback it passes is one
  definition below, in the order of the source.
\<close>

subsection \<open>Data\<close>

text \<open>The values \<open>readyState\<close> takes; \<open>Unset\<close> is its value before \<open>get\<close> first
  assigns it inside the constructor. The spelling \<open>discoverying\<close> is the source's.\<close>

datatype ready_state =
    Unset
  | Discoverying
  | Subscribing
  | Subscribed
  | Unsubscribing
  | Unsubscribed

text \<open>What an \<open>error\<close> event carries: the \<open>err\<close> of a callback, passed through; the
  \<open>null\<close> that \<open>get\<close> emits when the metadata fails to parse; the exception of
  \<open>JSON.parse\<close> on a message; the \<open>Error\<close> built for a missing document.\<close>

datatype error =
    ErrUpstream redis_error
  | ErrNull
  | ErrParse
  | ErrNotFound string

datatype ('v, 'd) event =
    EvPayload 'd
  | EvOp 'v
  | EvError error

text \<open>Calls to the collaborators, with their arguments: \<open>redis.get(id)\<close>,
  \<open>sub.subscribe(id)\<close>, \<open>mongo.get(col).findById(id, {fields})\<close> and
  \<open>sub.unsubscribe(id)\<close>.\<close>

datatype request =
    ReqGet sub_id
  | ReqSubscribe channel
  | ReqFetch js sub_id js
  | ReqUnsubscribe channel

text \<open>The kinds of callback a call leaves outstanding.\<close>

datatype call = CGet | CSub | CFetch | CUnsub

text \<open>The exceptions that end the process: a TypeError of the code, and the error
  Node's \<open>emit('error', err)\<close> throws when no \<open>error\<close> listener is registered.\<close>

datatype exn = TypeError string | UnhandledError error

record ('v, 'd) subscription =
  sid :: sub_id                 \<comment> \<open>\<open>this.id\<close>\<close>
  ready :: ready_state          \<comment> \<open>\<open>this.readyState\<close>\<close>
  ops :: "'v list option"       \<comment> \<open>\<open>this.ops\<close>; \<open>None\<close> is \<open>null\<close>\<close>
  payload :: "'d option"        \<comment> \<open>\<open>this.payload\<close>; \<open>None\<close> is unset or \<open>null\<close>\<close>
  oid :: js                     \<comment> \<open>\<open>this.oid\<close>\<close>
  sel_fields :: js               \<comment> \<open>\<open>this.fields\<close>\<close>
  col :: js                     \<comment> \<open>\<open>this.col\<close>\<close>
  listening :: bool             \<comment> \<open>\<open>this.onMessage\<close> is a \<open>message\<close> listener of \<open>sub\<close>\<close>
  payload_hook :: bool          \<comment> \<open>the \<open>once('payload', emitOps)\<close> listener is registered\<close>

record ('v, 'd) world = "('v, 'd) subscription" +
  trace :: "('v, 'd) event list"
  issued :: "request list"
  pending :: "call multiset"
  exn :: "exn option"

type_synonym 'v json_parser = "string \<Rightarrow> 'v option"

subsection \<open>Effects\<close>

text \<open>\<open>emit\<close> delivers an event to the external listeners, which were registered after
  the constructor returned; \<open>issue\<close> calls a collaborator and leaves its callback
  outstanding; \<open>throw\<close> is an exception that no caller catches.\<close>

definition emit :: "('v, 'd) event \<Rightarrow> ('v, 'd) world \<Rightarrow> ('v, 'd) world" where
  "emit ev w = w\<lparr>trace := trace w @ [ev]\<rparr>"

definition issue :: "request \<Rightarrow> call \<Rightarrow> ('v, 'd) world \<Rightarrow> ('v, 'd) world" where
  "issue r c w = w\<lparr>issued := issued w @ [r], pending := add_mset c (pending w)\<rparr>"

definition throw :: "exn \<Rightarrow> ('v, 'd) world \<Rightarrow> ('v, 'd) world" where
  "throw e w = w\<lparr>exn := Some e\<rparr>"

subsection \<open>The handlers\<close>

text \<open>\<open>Subscription.prototype.get\<close>: the call, then its callback \<open>get_cb\<close>. The
  callback reads the metadata fields from the raw reply \<open>data\<close>, not from the parsed
  \<open>obj\<close>, exactly as the source does.\<close>

definition get :: "('v, 'd) world \<Rightarrow> ('v, 'd) world" where
  "get w = issue (ReqGet (sid w)) CGet (w\<lparr>ready := Discoverying\<rparr>)"

definition subscribe :: "('v, 'd) world \<Rightarrow> ('v, 'd) world" where
  "subscribe w =
     (issue (ReqSubscribe (sid w)) CSub (w\<lparr>ready := Subscribing\<rparr>))\<lparr>listening := True\<rparr>"

definition get_cb ::
  "'v json_parser \<Rightarrow> redis_error option \<Rightarrow> string option \<Rightarrow> ('v, 'd) world \<Rightarrow> ('v, 'd) world" where
  "get_cb jp err data w =
     (case err of
        Some e \<Rightarrow> emit (EvError (ErrUpstream e)) w
      | None \<Rightarrow>
          (case jp (json_arg data) of
             None \<Rightarrow> emit (EvError ErrNull) w
           | Some _ \<Rightarrow>
               (case data of
                  None \<Rightarrow> throw (TypeError ''Cannot read property 'i' of null'') w
                | Some s \<Rightarrow>
                    subscribe (w\<lparr>oid := str_member s ''i'',
                                 sel_fields := js_or (str_member s ''f'') (JObj []),
                                 col := str_member s ''c''\<rparr>))))"

text \<open>\<open>Subscription.prototype.fetch\<close> and the \<open>findById\<close> callback.\<close>

definition fetch :: "('v, 'd) world \<Rightarrow> ('v, 'd) world" where
  "fetch w = issue (ReqFetch (col w) (sid w) (sel_fields w)) CFetch w"

definition sub_cb :: "redis_error option \<Rightarrow> ('v, 'd) world \<Rightarrow> ('v, 'd) world" where
  "sub_cb err w =
     (case err of
        Some e \<Rightarrow> emit (EvError (ErrUpstream e)) w
      | None \<Rightarrow> fetch (w\<lparr>ready := Subscribed\<rparr>))"

text \<open>\<open>Subscription.prototype.emitOps\<close>: the loop emits every buffered op in order,
  then resets the buffer; on a \<open>null\<close> buffer, reading \<open>length\<close> throws.\<close>

definition emit_ops :: "('v, 'd) world \<Rightarrow> ('v, 'd) world" where
  "emit_ops w =
     (case ops w of
        None \<Rightarrow> throw (TypeError ''Cannot read property 'length' of null'') w
      | Some xs \<Rightarrow>
          (if xs = [] then w
           else (fold (\<lambda>x. emit (EvOp x)) xs w)\<lparr>ops := Some []\<rparr>))"

text \<open>\<open>self.emit('payload', doc)\<close>: the listeners run in the order they were registered.
  The \<open>once\<close> listener \<open>emitOps\<close> was registered by the constructor, before any
  external listener, so it is removed and run first; if it throws, the exception leaves
  \<open>emit\<close> and the external payload listeners are not called.\<close>

definition emit_payload :: "'d \<Rightarrow> ('v, 'd) world \<Rightarrow> ('v, 'd) world" where
  "emit_payload d w =
     (if payload_hook w then
        (let w1 = emit_ops (w\<lparr>payload_hook := False\<rparr>)
         in if exn w1 = None then emit (EvPayload d) w1 else w1)
      else emit (EvPayload d) w)"

definition not_found_msg :: "js \<Rightarrow> sub_id \<Rightarrow> string" where
  "not_found_msg c i = ''Document \"'' @ js_to_string c @ ''.'' @ i @ ''\" not found''"

definition fetch_cb :: "redis_error option \<Rightarrow> 'd option \<Rightarrow> ('v, 'd) world \<Rightarrow> ('v, 'd) world" where
  "fetch_cb err doc w =
     (if ready w \<noteq> Subscribed then w
      else case err of
        Some e \<Rightarrow> emit (EvError (ErrUpstream e)) w
      | None \<Rightarrow>
          (case doc of
             None \<Rightarrow> emit (EvError (ErrNotFound (not_found_msg (col w) (sid w)))) w
           | Some d \<Rightarrow> emit_payload d (w\<lparr>payload := Some d\<rparr>)))"

text \<open>\<open>Subscription.prototype.onMessage\<close>, called for every message of the shared
  Redis connection.\<close>

definition on_message ::
  "'v json_parser \<Rightarrow> channel \<Rightarrow> string \<Rightarrow> ('v, 'd) world \<Rightarrow> ('v, 'd) world" where
  "on_message jp ch m w =
     (if sid w = ch then
        (case jp m of
           None \<Rightarrow> emit (EvError ErrParse) w
         | Some v \<Rightarrow>
             (if payload w \<noteq> None then emit (EvOp v) w
              else case ops w of
                None \<Rightarrow> throw (TypeError ''Cannot read property 'push' of null'') w
              | Some xs \<Rightarrow> w\<lparr>ops := Some (xs @ [v])\<rparr>))
      else w)"

text \<open>\<open>Subscription.prototype.destroy\<close> and the \<open>unsubscribe\<close> callback.\<close>

definition destroy :: "('v, 'd) world \<Rightarrow> ('v, 'd) world" where
  "destroy w =
     (if ready w = Subscribing \<or> ready w = Subscribed then
        (issue (ReqUnsubscribe (sid w)) CUnsub
           (w\<lparr>ready := Unsubscribing, ops := None, payload := None\<rparr>))\<lparr>listening := False\<rparr>
      else w)"

definition unsub_cb :: "redis_error option \<Rightarrow> ('v, 'd) world \<Rightarrow> ('v, 'd) world" where
  "unsub_cb err w =
     (case err of
        Some e \<Rightarrow> emit (EvError (ErrUpstream e)) w
      | None \<Rightarrow> w\<lparr>ready := Unsubscribed\<rparr>)"

text \<open>The constructor: \<open>get()\<close> runs before \<open>this.ops = []\<close> and before the
  \<open>once('payload')\<close> registration, but its callback cannot run before the constructor
  returns.\<close>

definition new_subscription :: "sub_id \<Rightarrow> ('v, 'd) world" where
  "new_subscription i =
     (get \<lparr>sid = i, ready = Unset, ops = None, payload = None, oid = JUndefined,
           sel_fields = JUndefined, col = JUndefined, listening = False, payload_hook = False,
           trace = [], issued = [], pending = {#}, exn = None\<rparr>)
       \<lparr>ops := Some [], payload_hook := True\<rparr>"

declare get_def [handler_defs] subscribe_def [handler_defs] get_cb_def [handler_defs]
  fetch_def [handler_defs] sub_cb_def [handler_defs] emit_ops_def [handler_defs]
  emit_payload_def [handler_defs] fetch_cb_def [handler_defs] on_message_def [handler_defs]
  destroy_def [handler_defs] unsub_cb_def [handler_defs] new_subscription_def [handler_defs]

declare emit_def [world_simps] issue_def [world_simps] throw_def [world_simps]

subsection \<open>Behaviour of each handler\<close>

text \<open>The \<open>for\<close> loop of \<open>emitOps\<close> appends the buffer to the trace, in order.\<close>

lemma fold_emit_ops:
  "fold (\<lambda>x. emit (EvOp x)) xs w = w\<lparr>trace := trace w @ map EvOp xs\<rparr>"
  by (induction xs arbitrary: w) (simp_all add: emit_def)

lemma emit_ops_null:
  "ops w = None \<Longrightarrow> emit_ops w = throw (TypeError ''Cannot read property 'length' of null'') w"
  by (simp add: emit_ops_def)

text \<open>C3: the \<open>findById\<close> callback that delivers a document, while subscribed and
  with the buffer in place, emits the buffered ops first and the payload after them: the
  \<open>once\<close> listener runs before the external payload listener.\<close>

theorem fetch_cb_ops_before_payload:
  assumes "ready w = Subscribed" and "ops w = Some xs" and "payload_hook w" and "exn w = None"
  shows "fetch_cb None (Some d) w =
           w\<lparr>payload := Some d, payload_hook := False, ops := Some [],
             trace := trace w @ map EvOp xs @ [EvPayload d]\<rparr>"
  using assms by (simp add: fetch_cb_def emit_payload_def emit_ops_def fold_emit_ops emit_def)

lemma fetch_cb_doc_no_hook:
  "ready w = Subscribed \<Longrightarrow> \<not> payload_hook w \<Longrightarrow>
   fetch_cb None (Some d) w = emit (EvPayload d) (w\<lparr>payload := Some d\<rparr>)"
  by (simp add: fetch_cb_def emit_payload_def)

text \<open>C21: a document that is not found, while subscribed, is one error event and no
  other change.\<close>

theorem fetch_cb_not_found:
  assumes "ready w = Subscribed"
  shows "fetch_cb None None w = emit (EvError (ErrNotFound (not_found_msg (col w) (sid w)))) w"
  using assms by (simp add: fetch_cb_def)

lemma fetch_cb_error:
  "ready w = Subscribed \<Longrightarrow> fetch_cb (Some e) doc w = emit (EvError (ErrUpstream e)) w"
  by (simp add: fetch_cb_def)

text \<open>The stale-completion guard: a \<open>findById\<close> result that arrives when the
  state is not \<open>subscribed\<close> changes nothing.\<close>

lemma fetch_cb_stale:
  assumes "ready w \<noteq> Subscribed"
  shows "fetch_cb err doc w = w"
  using assms by (simp add: fetch_cb_def)

text \<open>Messages of other channels of the shared connection are ignored.\<close>

lemma on_message_other_channel:
  assumes "ch \<noteq> sid w"
  shows "on_message jp ch m w = w"
  using assms by (simp add: on_message_def)

lemma on_message_parse_error:
  "jp m = None \<Longrightarrow> on_message jp (sid w) m w = emit (EvError ErrParse) w"
  by (simp add: on_message_def)

lemma on_message_live:
  "jp m = Some v \<Longrightarrow> payload w \<noteq> None \<Longrightarrow> on_message jp (sid w) m w = emit (EvOp v) w"
  by (simp add: on_message_def)

lemma on_message_buffer:
  "jp m = Some v \<Longrightarrow> payload w = None \<Longrightarrow> ops w = Some xs \<Longrightarrow>
   on_message jp (sid w) m w = w\<lparr>ops := Some (xs @ [v])\<rparr>"
  by (simp add: on_message_def)

text \<open>C18: a metadata reply that parses is never read: whatever it holds, the
  subscription stores \<open>undefined\<close> as document id and collection and \<open>{}\<close> as field
  selector, because the code reads \<open>data.i\<close> of the raw string instead of \<open>obj.i\<close>.\<close>

theorem get_cb_ignores_metadata:
  assumes "jp s = Some v"
  shows "get_cb jp None (Some s) w =
           subscribe (w\<lparr>oid := JUndefined, sel_fields := JObj [], col := JUndefined\<rparr>)"
  using assms by (simp add: get_cb_def json_arg_def js_or_def)

text \<open>C19: a Redis nil reply (no metadata stored under the id) that \<open>JSON.parse\<close>
  accepts as \<open>null\<close> makes \<open>data.i\<close> throw a TypeError out of the callback.\<close>

theorem get_cb_nil_throws:
  assumes "jp ''null'' = Some v"
  shows "get_cb jp None None w = throw (TypeError ''Cannot read property 'i' of null'') w"
  using assms by (simp add: get_cb_def json_arg_def)

text \<open>C20: metadata that fails to parse emits an error event carrying \<open>null\<close>, not
  the parse exception.\<close>

theorem get_cb_parse_error_null:
  assumes "jp s = None"
  shows "get_cb jp None (Some s) w = emit (EvError ErrNull) w"
  using assms by (simp add: get_cb_def json_arg_def)

lemma get_cb_error:
  "get_cb jp (Some e) data w = emit (EvError (ErrUpstream e)) w"
  by (simp add: get_cb_def)

text \<open>\<open>destroy\<close> twice is \<open>destroy\<close> once.\<close>

lemma destroy_idempotent: "destroy (destroy w) = destroy w"
  by (simp add: destroy_def issue_def)

lemma destroy_active:
  "ready w = Subscribing \<or> ready w = Subscribed \<Longrightarrow>
   destroy w = w\<lparr>ready := Unsubscribing, ops := None, payload := None, listening := False,
                 issued := issued w @ [ReqUnsubscribe (sid w)],
                 pending := add_mset CUnsub (pending w)\<rparr>"
  by (simp add: destroy_def issue_def)

lemma destroy_inactive:
  "ready w \<noteq> Subscribing \<Longrightarrow> ready w \<noteq> Subscribed \<Longrightarrow> destroy w = w"
  by (simp add: destroy_def)

lemmas handler_branches =
  emit_ops_null fetch_cb_doc_no_hook fetch_cb_error on_message_parse_error on_message_live
  on_message_buffer get_cb_error destroy_active destroy_inactive

end
