(* ===== verification/Replay_Loop.thy ===== *)
theory Replay_Loop
  imports Subscription
begin

text \<open>
  The loop of \<open>Subscription.prototype.emitOps\<close> exactly as written: the index \<open>i\<close>
  runs while \<open>i < this.ops.length\<close>, the bound is read again before every iteration,
  and every \<open>this.emit('op', ...)\<close> runs the external \<open>op\<close> listeners, which may call
  back into the object. The listeners' reaction is a parameter \<open>r\<close>: \<open>r v\<close> says that
  a listener calls \<open>destroy()\<close> when it receives the op \<open>v\<close>. The definition
  \<open>Subscription.emit_ops\<close> is the loop for listeners that do not call back; this theory
  proves that it is, and what happens when a listener does call back.
\<close>

definition op_listener :: "('v \<Rightarrow> bool) \<Rightarrow> 'v \<Rightarrow> ('v, 'd) world \<Rightarrow> ('v, 'd) world" where
  "op_listener r v w = (if r v then destroy w else w)"

definition loop_measure :: "nat \<Rightarrow> ('v, 'd) world \<Rightarrow> nat" where
  "loop_measure i w = (case ops w of None \<Rightarrow> 0 | Some xs \<Rightarrow> length xs - i)"

function (domintros) emit_ops_loop ::
  "('v \<Rightarrow> bool) \<Rightarrow> nat \<Rightarrow> ('v, 'd) world \<Rightarrow> ('v, 'd) world" where
  "emit_ops_loop r i w =
     (case ops w of
        None \<Rightarrow> throw (TypeError ''Cannot read property 'length' of null'') w
      | Some xs \<Rightarrow>
          (if i < length xs
           then emit_ops_loop r (Suc i) (op_listener r (xs ! i) (emit (EvOp (xs ! i)) w))
           else w))"
  by pat_completeness auto

termination
  by (relation "measure (\<lambda>(r, i, w). loop_measure i w)")
     (auto simp: loop_measure_def op_listener_def destroy_def issue_def emit_def)

text \<open>The whole method: \<open>if (this.ops.length) { for ...; this.ops = []; }\<close>. An
  exception thrown in the loop leaves the method before the reset.\<close>

definition emit_ops_js :: "('v \<Rightarrow> bool) \<Rightarrow> ('v, 'd) world \<Rightarrow> ('v, 'd) world" where
  "emit_ops_js r w =
     (case ops w of
        None \<Rightarrow> throw (TypeError ''Cannot read property 'length' of null'') w
      | Some xs \<Rightarrow>
          (if xs = [] then w
           else let w1 = emit_ops_loop r 0 w in
                if exn w1 = None then w1\<lparr>ops := Some []\<rparr> else w1))"

text \<open>The same loop with a bound on the number of loop tests, for counting them.\<close>

fun emit_ops_fuel ::
  "nat \<Rightarrow> ('v \<Rightarrow> bool) \<Rightarrow> nat \<Rightarrow> ('v, 'd) world \<Rightarrow> ('v, 'd) world option" where
  "emit_ops_fuel 0 r i w = None"
| "emit_ops_fuel (Suc n) r i w =
     (case ops w of
        None \<Rightarrow> Some (throw (TypeError ''Cannot read property 'length' of null'') w)
      | Some xs \<Rightarrow>
          (if i < length xs
           then emit_ops_fuel n r (Suc i) (op_listener r (xs ! i) (emit (EvOp (xs ! i)) w))
           else Some w))"

text \<open>\<open>self.emit('payload', doc)\<close> and the \<open>findById\<close> callback of \<open>fetch\<close>
  (lines 85-95), with the \<open>once\<close> listener running the loop as written.\<close>

definition emit_payload_js :: "('v \<Rightarrow> bool) \<Rightarrow> 'd \<Rightarrow> ('v, 'd) world \<Rightarrow> ('v, 'd) world" where
  "emit_payload_js r d w =
     (if payload_hook w then
        (let w1 = emit_ops_js r (w\<lparr>payload_hook := False\<rparr>)
         in if exn w1 = None then emit (EvPayload d) w1 else w1)
      else emit (EvPayload d) w)"

definition fetch_cb_js ::
  "('v \<Rightarrow> bool) \<Rightarrow> redis_error option \<Rightarrow> 'd option \<Rightarrow> ('v, 'd) world \<Rightarrow> ('v, 'd) world" where
  "fetch_cb_js r err doc w =
     (if ready w \<noteq> Subscribed then w
      else case err of
        Some e \<Rightarrow> emit (EvError (ErrUpstream e)) w
      | None \<Rightarrow>
          (case doc of
             None \<Rightarrow> emit (EvError (ErrNotFound (not_found_msg (col w) (sid w)))) w
           | Some d \<Rightarrow> emit_payload_js r d (w\<lparr>payload := Some d\<rparr>)))"

declare emit_ops_loop.simps [simp del]

lemma ops_op_listener:
  "ops (op_listener r v (emit e w)) = ops w \<or> ops (op_listener r v (emit e w)) = None"
  by (simp add: op_listener_def destroy_def issue_def emit_def)

lemma loop_measure_decreases:
  assumes "ops w = Some xs" and "i < length xs"
  shows "loop_measure (Suc i) (op_listener r v (emit e w)) < loop_measure i w"
  using ops_op_listener [of r v e w] assms by (auto simp: loop_measure_def)

subsection \<open>The loop with listeners that do not call back\<close>

lemma emit_ops_loop_quiet:
  "ops w = Some xs \<Longrightarrow>
   emit_ops_loop (\<lambda>_. False) i w = w\<lparr>trace := trace w @ map EvOp (drop i xs)\<rparr>"
proof (induction "length xs - i" arbitrary: i w)
  case 0
  then show ?case by (simp add: emit_ops_loop.simps [of _ i])
next
  case (Suc n)
  then have i: "i < length xs" and d: "drop i xs = xs ! i # drop (Suc i) xs"
    by (simp_all add: Cons_nth_drop_Suc)
  have "ops (emit (EvOp (xs ! i)) w) = Some xs" "n = length xs - Suc i"
    using Suc by (simp_all add: emit_def)
  from Suc.hyps(1) [OF this(2) this(1)] i d Suc.prems show ?case
    by (simp add: emit_ops_loop.simps [of _ i] op_listener_def emit_def)
qed

text \<open>For listeners that do not call back into the object, the loop as written
  is the reference \<open>Subscription.emit_ops\<close>: every buffered op is emitted once, in
  order, and the buffer is reset.\<close>

lemma emit_ops_js_equiv:
  assumes "exn w = None"
  shows "emit_ops_js (\<lambda>_. False) w = emit_ops w"
  using assms
  by (auto simp: emit_ops_js_def emit_ops_def emit_ops_loop_quiet fold_emit_ops
           split: option.split)

subsection \<open>Termination and what the loop can emit\<close>

lemma emit_ops_loop_domain: "emit_ops_loop_dom (r, i, w)"
proof (induction "loop_measure i w" arbitrary: i w rule: less_induct)
  case less
  show ?case
  proof (rule emit_ops_loop.domintros)
    fix xs assume "ops w = Some xs" "i < length xs"
    then show "emit_ops_loop_dom (r, Suc i, op_listener r (xs ! i) (emit (EvOp (xs ! i)) w))"
      by (intro less loop_measure_decreases)
  qed
qed

text \<open>C16: the \<open>emitOps\<close> loop stops after at most one test more than there are
  ops left to emit, whatever the listeners do, although it re-reads
  \<open>this.ops.length\<close> after every listener call: with that many tests the counted loop
  returns, and returns what the loop returns.\<close>

theorem emit_ops_loop_terminates:
  assumes "loop_measure i w < n"
  shows "emit_ops_fuel n r i w = Some (emit_ops_loop r i w)"
  using assms
proof (induction n arbitrary: i w)
  case 0
  then show ?case by simp
next
  case (Suc n)
  show ?case
  proof (cases "ops w")
    case None
    then show ?thesis by (simp add: emit_ops_loop.simps [of _ i])
  next
    case (Some xs)
    show ?thesis
    proof (cases "i < length xs")
      case True
      with Some have "loop_measure (Suc i) (op_listener r (xs ! i) (emit (EvOp (xs ! i)) w))
                        < loop_measure i w"
        by (rule loop_measure_decreases)
      with Suc.prems Suc.IH True Some show ?thesis
        by (simp add: emit_ops_loop.simps [of _ i])
    next
      case False
      with Some show ?thesis by (simp add: emit_ops_loop.simps [of _ i])
    qed
  qed
qed

lemma trace_op_listener:
  "trace (op_listener r v (emit e w)) = trace w @ [e]"
  by (simp add: op_listener_def destroy_def issue_def emit_def)

text \<open>C29: the loop emits a prefix of the part of the buffer from the index on, in
  buffer order, and nothing else: never more ops than remain.\<close>

theorem emit_ops_loop_prefix:
  assumes "ops w = Some xs"
  shows "\<exists>k \<le> length xs - i.
           trace (emit_ops_loop r i w) = trace w @ map EvOp (take k (drop i xs))"
  using assms
proof (induction "length xs - i" arbitrary: i w)
  case 0
  then show ?case by (simp add: emit_ops_loop.simps [of _ i])
next
  case (Suc n)
  define w' where "w' = op_listener r (xs ! i) (emit (EvOp (xs ! i)) w)"
  have i: "i < length xs" and d: "drop i xs = xs ! i # drop (Suc i) xs"
    using Suc.hyps(2) by (simp_all add: Cons_nth_drop_Suc)
  have run: "emit_ops_loop r i w = emit_ops_loop r (Suc i) w'"
    using i Suc.prems by (simp add: emit_ops_loop.simps [of _ i] w'_def)
  have tr: "trace w' = trace w @ [EvOp (xs ! i)]"
    by (simp add: w'_def trace_op_listener)
  from ops_op_listener [of r "xs ! i" "EvOp (xs ! i)" w] Suc.prems
  consider "ops w' = Some xs" | "ops w' = None" by (auto simp: w'_def)
  then show ?case
  proof cases
    case 1
    with Suc.hyps(1) [of "Suc i" w'] Suc.hyps(2) obtain k where
      "k \<le> length xs - Suc i" "trace (emit_ops_loop r (Suc i) w') =
         trace w' @ map EvOp (take k (drop (Suc i) xs))"
      by fastforce
    with run tr d i show ?thesis
      by (intro exI [of _ "Suc k"]) auto
  next
    case 2
    then have "trace (emit_ops_loop r (Suc i) w') = trace w'"
      by (simp add: emit_ops_loop.simps [of _ "Suc i"] throw_def)
    with run tr d i show ?thesis
      by (intro exI [of _ 1]) simp
  qed
qed

subsection \<open>A listener that destroys the subscription during the replay\<close>

text \<open>An \<open>op\<close> listener that calls \<open>destroy()\<close> during the replay sets
  \<open>this.ops\<close> to \<open>null\<close>; the next loop test reads its \<open>length\<close> and throws
  a TypeError after the first op, with the unsubscribe already issued.\<close>

lemma emit_ops_js_reentrant_destroy:
  assumes "ops w = Some (v # vs)" and "r v" and "ready w = Subscribing \<or> ready w = Subscribed"
  shows "emit_ops_js r w =
           throw (TypeError ''Cannot read property 'length' of null'') (destroy (emit (EvOp v) w))"
proof -
  have "ops (destroy (emit (EvOp v) w)) = None"
    using assms(3) by (auto simp: destroy_def issue_def emit_def)
  then have "emit_ops_loop r 0 w =
               throw (TypeError ''Cannot read property 'length' of null'') (destroy (emit (EvOp v) w))"
    using assms(1,2)
    by (simp add: emit_ops_loop.simps [of _ 0] emit_ops_loop.simps [of _ "Suc 0"] op_listener_def)
  with assms(1) show ?thesis
    by (simp add: emit_ops_js_def throw_def)
qed

subsection \<open>Buffering and replay\<close>

lemma fold_on_message_buffer:
  assumes "ops w = Some xs" and "payload w = None" and "\<forall>m\<in>set ms. jp m \<noteq> None"
  shows "fold (on_message jp (sid w)) ms w = w\<lparr>ops := Some (xs @ map (the \<circ> jp) ms)\<rparr>"
  using assms
proof (induction ms arbitrary: w xs)
  case Nil
  then show ?case by simp
next
  case (Cons m ms)
  then obtain v where v: "jp m = Some v" by auto
  let ?w1 = "w\<lparr>ops := Some (xs @ [v])\<rparr>"
  have "on_message jp (sid w) m w = ?w1"
    using v Cons.prems by (simp add: on_message_def)
  moreover have "fold (on_message jp (sid ?w1)) ms ?w1 = ?w1\<lparr>ops := Some ((xs @ [v]) @ map (the \<circ> jp) ms)\<rparr>"
    using Cons by (intro Cons.IH) simp_all
  ultimately show ?case
    using v by simp
qed

text \<open>C28: messages buffered by \<open>onMessage\<close> before the payload and replayed by
  \<open>emitOps\<close> come out as exactly the parsed messages, in arrival order, and the
  buffer is empty again.\<close>

theorem buffer_replay_roundtrip:
  assumes "ops w = Some []" and "payload w = None" and "\<forall>m\<in>set ms. jp m \<noteq> None"
  shows "emit_ops (fold (on_message jp (sid w)) ms w) =
           w\<lparr>trace := trace w @ map (EvOp \<circ> the \<circ> jp) ms\<rparr>"
proof -
  have "w\<lparr>ops := Some []\<rparr> = w" using assms(1) by simp
  then show ?thesis
    using fold_on_message_buffer [OF assms] assms(1)
    by (cases "ms = []") (auto simp: emit_ops_def fold_emit_ops)
qed

subsection \<open>The fetch callback with the loop as written\<close>

text \<open>C15: for listeners that do not call back into the object, the \<open>findById\<close>
  callback with the loop as written is \<open>Subscription.fetch_cb\<close>, on every branch: the
  model of the handlers, in which the replay is a \<open>fold\<close>, loses nothing.\<close>

theorem fetch_cb_js_equiv:
  assumes "exn w = None"
  shows "fetch_cb_js (\<lambda>_. False) err doc w = fetch_cb err doc w"
  using assms emit_ops_js_equiv [of "w\<lparr>payload := Some d, payload_hook := False\<rparr>" for d]
  by (auto simp: fetch_cb_js_def fetch_cb_def emit_payload_js_def emit_payload_def
           split: option.split)

text \<open>C14: when a document arrives with ops buffered and the first replayed op makes an
  \<open>op\<close> listener call \<open>destroy()\<close>, the callback throws a TypeError from the loop
  test of \<open>emitOps\<close>: the listeners have seen that one op and never see the payload,
  and the exception leaves the Mongo callback uncaught.\<close>

theorem fetch_cb_js_reentrant_destroy:
  assumes "ready w = Subscribed" and "payload_hook w" and "ops w = Some (v # vs)" and "r v"
  shows "fetch_cb_js r None (Some d) w =
           throw (TypeError ''Cannot read property 'length' of null'')
             (destroy (emit (EvOp v) (w\<lparr>payload := Some d, payload_hook := False\<rparr>)))"
proof -
  let ?w = "w\<lparr>payload := Some d, payload_hook := False\<rparr>"
  have "emit_ops_js r ?w =
          throw (TypeError ''Cannot read property 'length' of null'') (destroy (emit (EvOp v) ?w))"
    using assms by (intro emit_ops_js_reentrant_destroy) simp_all
  with assms(1,2) show ?thesis
    by (simp add: fetch_cb_js_def emit_payload_js_def throw_def)
qed

end
