(* ===== verification/Coordinator.thy ===== *)
theory Coordinator
  imports Subscription
begin

text \<open>
  The event loop around one \<open>Subscription\<close>. Each input is one thing the Node.js event
  loop can run next: the callback of an outstanding Redis or Mongo call, with the result
  the collaborator chose; a \<open>message\<close> event of the shared Redis connection, while
  \<open>onMessage\<close> is one of its listeners; or a call of \<open>destroy()\<close> by the owner. The
  order of the inputs is arbitrary: this is the interleaving of the spec's section 5.
  A callback can run only while its call is outstanding, and nothing runs after an
  uncaught exception. \<open>step\<close> is executable; \<open>run\<close> folds it over a list of inputs;
  \<open>reach\<close> is the set of worlds some interleaving produces.
\<close>

datatype 'd input =
    Get_reply "redis_error option" "string option"   \<comment> \<open>\<open>redis.get\<close> callback \<open>(err, data)\<close>\<close>
  | Subscribe_reply "redis_error option"               \<comment> \<open>\<open>sub.subscribe\<close> callback\<close>
  | Fetch_reply "redis_error option" "'d option"       \<comment> \<open>\<open>findById\<close> callback \<open>(err, doc)\<close>\<close>
  | Unsubscribe_reply "redis_error option"             \<comment> \<open>\<open>sub.unsubscribe\<close> callback\<close>
  | Message channel string                             \<comment> \<open>\<open>message\<close> event \<open>(channel, message)\<close>\<close>
  | Destroy                                            \<comment> \<open>the owner calls \<open>destroy()\<close>\<close>

definition complete :: "call \<Rightarrow> ('v, 'd) world \<Rightarrow> ('v, 'd) world" where
  "complete c w = w\<lparr>pending := pending w - {#c#}\<rparr>"

fun step :: "'v json_parser \<Rightarrow> 'd input \<Rightarrow> ('v, 'd) world \<Rightarrow> ('v, 'd) world option" where
  "step jp (Get_reply e d) w =
     (if exn w = None \<and> CGet \<in># pending w then Some (get_cb jp e d (complete CGet w)) else None)"
| "step jp (Subscribe_reply e) w =
     (if exn w = None \<and> CSub \<in># pending w then Some (sub_cb e (complete CSub w)) else None)"
| "step jp (Fetch_reply e d) w =
     (if exn w = None \<and> CFetch \<in># pending w then Some (fetch_cb e d (complete CFetch w)) else None)"
| "step jp (Unsubscribe_reply e) w =
     (if exn w = None \<and> CUnsub \<in># pending w then Some (unsub_cb e (complete CUnsub w)) else None)"
| "step jp (Message ch m) w =
     (if exn w = None \<and> listening w then Some (on_message jp ch m w) else None)"
| "step jp Destroy w =
     (if exn w = None then Some (destroy w) else None)"

fun run :: "'v json_parser \<Rightarrow> 'd input list \<Rightarrow> ('v, 'd) world \<Rightarrow> ('v, 'd) world option" where
  "run jp [] w = Some w"
| "run jp (inp # inps) w = Option.bind (step jp inp w) (run jp inps)"

inductive reach :: "'v json_parser \<Rightarrow> sub_id \<Rightarrow> ('v, 'd) world \<Rightarrow> bool" for jp i where
  reach_init: "reach jp i (new_subscription i)"
| reach_step: "reach jp i w \<Longrightarrow> step jp inp w = Some w' \<Longrightarrow> reach jp i w'"

subsection \<open>Properties of worlds\<close>

text \<open>
  The constructor makes one metadata call; its callback makes at most one subscribe
  call; that callback makes at most one fetch; that callback emits at most one payload.
  The four counts below therefore add up to at most one at every moment.
\<close>

fun is_payload :: "('v, 'd) event \<Rightarrow> bool" where
  "is_payload (EvPayload _) = True"
| "is_payload _ = False"

definition budget :: "('v, 'd) world \<Rightarrow> nat" where
  "budget w = count (pending w) CGet + count (pending w) CSub + count (pending w) CFetch
              + length (filter is_payload (trace w))"

text \<open>What the calls to the collaborators carry: every call names the subscription's
  own id, and every fetch asks for collection \<open>undefined\<close> with selector \<open>{}\<close>.\<close>

fun req_ok :: "sub_id \<Rightarrow> request \<Rightarrow> bool" where
  "req_ok i (ReqGet j) = (j = i)"
| "req_ok i (ReqSubscribe ch) = (ch = i)"
| "req_ok i (ReqFetch c j f) = (c = JUndefined \<and> j = i \<and> f = JObj [])"
| "req_ok i (ReqUnsubscribe ch) = (ch = i)"

definition coord_inv :: "sub_id \<Rightarrow> ('v, 'd) world \<Rightarrow> bool" where
  "coord_inv i w \<longleftrightarrow>
     sid w = i \<and> oid w = JUndefined \<and> col w = JUndefined \<and> ready w \<noteq> Unset \<and>
     (ready w = Discoverying \<longrightarrow>
        set_mset (pending w) \<subseteq> {CGet} \<and> ops w = Some [] \<and> \<not> listening w \<and> payload w = None) \<and>
     (ready w \<noteq> Discoverying \<longrightarrow> sel_fields w = JObj [] \<and> CGet \<notin># pending w) \<and>
     (listening w \<longrightarrow> ops w \<noteq> None) \<and>
     (ready w = Subscribed \<longrightarrow> CSub \<notin># pending w) \<and>
     (ready w = Subscribing \<longrightarrow> CUnsub \<notin># pending w) \<and>
     list_all (req_ok i) (issued w)"

fun is_data :: "('v, 'd) event \<Rightarrow> bool" where
  "is_data (EvError _) = False"
| "is_data _ = True"

text \<open>A torn-down world: the state is \<open>unsubscribing\<close> or \<open>unsubscribed\<close>, no metadata
  or subscribe callback is outstanding, and \<open>onMessage\<close> is detached.\<close>

definition torn_down :: "('v, 'd) world \<Rightarrow> bool" where
  "torn_down w \<longleftrightarrow> (ready w = Unsubscribing \<or> ready w = Unsubscribed) \<and>
     CGet \<notin># pending w \<and> CSub \<notin># pending w \<and> \<not> listening w"

text \<open>The transitions of the lifecycle table of the spec (section 4.1): from the
  constructor to \<open>discovering\<close>, then in the table's order, with teardown from
  \<open>subscribing\<close> or \<open>subscribed\<close>.\<close>

fun spec_edge :: "ready_state \<Rightarrow> ready_state \<Rightarrow> bool" where
  "spec_edge Unset Discoverying = True"
| "spec_edge Discoverying Subscribing = True"
| "spec_edge Subscribing Subscribed = True"
| "spec_edge Subscribing Unsubscribing = True"
| "spec_edge Subscribed Unsubscribing = True"
| "spec_edge Unsubscribing Unsubscribed = True"
| "spec_edge _ _ = False"

fun_cases step_SomeE: "step jp inp w = Some w'"

subsection \<open>Runs and reachable states\<close>

lemma run_append:
  "run jp (xs @ ys) w = Option.bind (run jp xs w) (run jp ys)"
  by (induction xs arbitrary: w) (auto split: Option.bind_splits)

lemma run_snoc_Some:
  "run jp (xs @ [x]) w = Some w'' \<longleftrightarrow> (\<exists>w'. run jp xs w = Some w' \<and> step jp x w' = Some w'')"
  by (auto simp: run_append split: Option.bind_splits)

lemma reach_run_from:
  "reach jp i w \<Longrightarrow> run jp inps w = Some w' \<Longrightarrow> reach jp i w'"
proof (induction inps arbitrary: w)
  case Nil
  then show ?case by simp
next
  case (Cons inp inps)
  then obtain w1 where "step jp inp w = Some w1" and "run jp inps w1 = Some w'"
    by (auto split: Option.bind_splits)
  with Cons show ?case by (blast intro: reach_step)
qed

text \<open>The reachable worlds are exactly the results of the runs from the
  constructor's world.\<close>

lemma reach_iff_run:
  "reach jp i w \<longleftrightarrow> (\<exists>inps. run jp inps (new_subscription i) = Some w)"
proof
  assume "reach jp i w"
  then show "\<exists>inps. run jp inps (new_subscription i) = Some w"
  proof (induction rule: reach.induct)
    case reach_init
    have "run jp [] (new_subscription i) = Some (new_subscription i)" by simp
    then show ?case by blast
  next
    case (reach_step w inp w')
    then obtain inps where "run jp inps (new_subscription i) = Some w" by blast
    with reach_step.hyps(2) have "run jp (inps @ [inp]) (new_subscription i) = Some w'"
      by (simp add: run_snoc_Some)
    then show ?case by blast
  qed
next
  assume "\<exists>inps. run jp inps (new_subscription i) = Some w"
  then show "reach jp i w" by (blast intro: reach_run_from reach_init)
qed

subsection \<open>The lifecycle budget\<close>

lemma budget_init: "budget (new_subscription i) = 1"
  by (simp add: budget_def handler_defs world_simps)

lemma filter_payload_fold_ops [simp]:
  "filter is_payload (trace (emit_ops w)) = filter is_payload (trace w)"
  by (simp add: emit_ops_def fold_emit_ops world_simps split: option.split)

lemma pending_emit_ops [simp]: "pending (emit_ops w) = pending w"
  by (simp add: emit_ops_def fold_emit_ops world_simps split: option.split)

lemma exn_emit_ops_Some: "exn (emit_ops w) = None \<Longrightarrow> exn w = None"
  by (simp add: emit_ops_def fold_emit_ops world_simps split: option.splits if_splits)

lemma budget_step:
  assumes "step jp inp w = Some w'"
  shows "budget w' \<le> budget w"
proof (cases inp)
  case (Get_reply e d)
  with assms show ?thesis
    by (auto simp: budget_def complete_def get_cb_def subscribe_def world_simps
        split: option.splits if_splits dest!: multi_member_split)
next
  case (Subscribe_reply e)
  with assms show ?thesis
    by (auto simp: budget_def complete_def sub_cb_def fetch_def world_simps
        split: option.splits if_splits dest!: multi_member_split)
next
  case (Fetch_reply e d)
  with assms show ?thesis
    by (auto simp: budget_def complete_def fetch_cb_def emit_payload_def Let_def world_simps
        split: option.splits if_splits dest!: multi_member_split)
next
  case (Unsubscribe_reply e)
  with assms show ?thesis
    by (auto simp: budget_def complete_def unsub_cb_def world_simps split: option.splits if_splits)
next
  case (Message ch m)
  with assms show ?thesis
    by (auto simp: budget_def on_message_def world_simps split: option.splits if_splits)
next
  case Destroy
  with assms show ?thesis
    by (auto simp: budget_def destroy_def world_simps split: if_splits)
qed

lemma budget_le_one: "reach jp i w \<Longrightarrow> budget w \<le> 1"
proof (induction rule: reach.induct)
  case reach_init
  then show ?case by (simp add: budget_init)
next
  case (reach_step w inp w')
  then show ?case using budget_step [of jp inp w w'] by simp
qed

text \<open>C5: in every reachable world, the outstanding metadata, subscribe and fetch
  callbacks and the payload events emitted so far number at most one: the payload is
  emitted at most once, and never while one of those calls is outstanding.\<close>

theorem reach_budget:
  assumes "reach jp i w"
  shows "count (pending w) CGet + count (pending w) CSub + count (pending w) CFetch
           + length (filter is_payload (trace w)) \<le> 1"
  using budget_le_one [OF assms] by (simp add: budget_def)

subsection \<open>The structural invariant\<close>

lemma coord_inv_init: "coord_inv i (new_subscription i)"
  by (simp add: coord_inv_def handler_defs world_simps)

lemmas run_eval = handler_defs world_simps complete_def json_arg_def js_or_def
  not_found_msg_def js_to_string_def

lemma emit_ops_fields [simp]:
  "sid (emit_ops w) = sid w" "oid (emit_ops w) = oid w" "col (emit_ops w) = col w"
  "ready (emit_ops w) = ready w" "sel_fields (emit_ops w) = sel_fields w"
  "listening (emit_ops w) = listening w" "issued (emit_ops w) = issued w"
  "payload (emit_ops w) = payload w"
  by (simp_all add: emit_ops_def fold_emit_ops world_simps split: option.split)

lemma emit_ops_ops: "ops (emit_ops w) = ops w \<or> ops (emit_ops w) = Some []"
  by (simp add: emit_ops_def fold_emit_ops world_simps split: option.split)

lemma emit_payload_fields [simp]:
  "sid (emit_payload d w) = sid w" "oid (emit_payload d w) = oid w"
  "col (emit_payload d w) = col w" "ready (emit_payload d w) = ready w"
  "sel_fields (emit_payload d w) = sel_fields w" "listening (emit_payload d w) = listening w"
  "issued (emit_payload d w) = issued w" "payload (emit_payload d w) = payload w"
  "pending (emit_payload d w) = pending w"
  by (simp_all add: emit_payload_def Let_def world_simps)

lemma emit_payload_ops: "ops (emit_payload d w) = ops w \<or> ops (emit_payload d w) = Some []"
  using emit_ops_ops [of "w\<lparr>payload_hook := False\<rparr>"]
  by (auto simp: emit_payload_def Let_def world_simps)

text \<open>Facts on the pending callbacks that the budget gives in a world that takes a step.\<close>

lemma budget_one_CGet:
  "budget w \<le> 1 \<Longrightarrow> CGet \<in># pending w \<Longrightarrow> count (pending w) CGet = 1 \<and> CSub \<notin># pending w"
  by (simp add: budget_def flip: count_greater_zero_iff)

lemma budget_one_CSub:
  "budget w \<le> 1 \<Longrightarrow> CSub \<in># pending w \<Longrightarrow> count (pending w) CSub = 1 \<and> CGet \<notin># pending w"
  by (simp add: budget_def flip: count_greater_zero_iff)

lemma coord_inv_step:
  assumes inv: "coord_inv i w" and bud: "budget w \<le> 1" and st: "step jp inp w = Some w'"
  shows "coord_inv i w'"
proof (cases inp)
  case (Get_reply e d)
  with st have g: "CGet \<in># pending w" and w': "w' = get_cb jp e d (complete CGet w)"
    by (auto split: if_splits)
  from bud g have "count (pending w) CGet = 1" by (simp add: budget_one_CGet)
  then have "CGet \<notin># pending w - {#CGet#}" by (simp flip: count_greater_zero_iff)
  with inv g w' show ?thesis
    by (auto simp: coord_inv_def get_cb_def subscribe_def complete_def js_or_def world_simps
        split: option.splits dest: in_diffD)
next
  case (Subscribe_reply e)
  with st have g: "CSub \<in># pending w" and w': "w' = sub_cb e (complete CSub w)"
    by (auto split: if_splits)
  from bud g have "count (pending w) CSub = 1" by (simp add: budget_one_CSub)
  then have "CSub \<notin># pending w - {#CSub#}" by (simp flip: count_greater_zero_iff)
  with inv g w' show ?thesis
    by (auto simp: coord_inv_def sub_cb_def fetch_def complete_def world_simps
        split: option.splits dest: in_diffD)
next
  case (Fetch_reply e d)
  with st have g: "CFetch \<in># pending w" and w': "w' = fetch_cb e d (complete CFetch w)"
    by (auto split: if_splits)
  show ?thesis
  proof (cases "ready w = Subscribed \<and> e = None \<and> d \<noteq> None")
    case True
    then obtain y where d: "d = Some y" by auto
    let ?w1 = "w\<lparr>pending := pending w - {#CFetch#}, payload := Some y\<rparr>"
    from True d w' have w'': "w' = emit_payload y ?w1"
      by (simp add: fetch_cb_def complete_def)
    from inv g True have "coord_inv i ?w1"
      by (auto simp: coord_inv_def dest: in_diffD)
    with emit_payload_ops [of y ?w1] show ?thesis
      unfolding w'' coord_inv_def by auto
  next
    case False
    with inv g w' show ?thesis
      by (auto simp: coord_inv_def fetch_cb_def complete_def world_simps
          split: option.splits dest: in_diffD)
  qed
next
  case (Unsubscribe_reply e)
  with st have g: "CUnsub \<in># pending w" and w': "w' = unsub_cb e (complete CUnsub w)"
    by (auto split: if_splits)
  with inv show ?thesis
    by (auto simp: coord_inv_def unsub_cb_def complete_def world_simps
        split: option.splits dest: in_diffD)
next
  case (Message ch m)
  with st have l: "listening w" and w': "w' = on_message jp ch m w"
    by (auto split: if_splits)
  with inv show ?thesis
    by (auto simp: coord_inv_def on_message_def world_simps split: option.splits)
next
  case Destroy
  with st have w': "w' = destroy w"
    by (auto split: if_splits)
  with inv show ?thesis
    by (auto simp: coord_inv_def destroy_def world_simps)
qed

lemma reach_coord_inv: "reach jp i w \<Longrightarrow> coord_inv i w"
proof (induction rule: reach.induct)
  case reach_init
  show ?case by (rule coord_inv_init)
next
  case (reach_step w inp w')
  from reach_step.hyps(1) have "budget w \<le> 1"
    by (rule budget_le_one)
  with reach_step show ?case by (blast intro: coord_inv_step)
qed

text \<open>C17: every \<open>findById\<close> call the subscription ever makes asks for collection
  \<open>undefined\<close>, uses the subscription id (not the document id of the metadata) as the
  document id, and selects the fields \<open>{}\<close>.\<close>

theorem reach_fetch_request:
  assumes "reach jp i w" and "ReqFetch c j f \<in> set (issued w)"
  shows "c = JUndefined \<and> j = i \<and> f = JObj []"
proof -
  from assms(1) have "list_all (req_ok i) (issued w)"
    by (simp add: reach_coord_inv [THEN coord_inv_def [THEN iffD1]])
  with assms(2) show ?thesis by (auto simp: list_all_iff)
qed

text \<open>C23: delivering a message never throws: whenever \<open>onMessage\<close> is a listener,
  the buffer is not \<open>null\<close>.\<close>

theorem reach_message_no_throw:
  assumes "reach jp i w" and "step jp (Message ch m) w = Some w'"
  shows "exn w' = None"
proof -
  from assms(2) have "exn w = None" and "listening w" and w': "w' = on_message jp ch m w"
    by (auto split: if_splits)
  moreover from assms(1) \<open>listening w\<close> have "ops w \<noteq> None"
    by (simp add: reach_coord_inv [THEN coord_inv_def [THEN iffD1]])
  ultimately show ?thesis
    by (auto simp: on_message_def world_simps split: option.splits)
qed

subsection \<open>Teardown\<close>

lemma torn_down_step:
  assumes "torn_down w" and "step jp inp w = Some w'"
  shows "torn_down w' \<and> filter is_data (trace w') = filter is_data (trace w) \<and> exn w' = exn w"
  using assms
  by (cases inp)
     (auto simp: torn_down_def fetch_cb_def unsub_cb_def destroy_def complete_def world_simps
        split: if_splits option.splits dest: in_diffD)

lemma torn_down_run:
  "torn_down w \<Longrightarrow> run jp inps w = Some w' \<Longrightarrow>
   torn_down w' \<and> filter is_data (trace w') = filter is_data (trace w) \<and> exn w' = exn w"
proof (induction inps arbitrary: w)
  case Nil
  then show ?case by simp
next
  case (Cons inp inps)
  then obtain w1 where s: "step jp inp w = Some w1" and r: "run jp inps w1 = Some w'"
    by (auto split: Option.bind_splits)
  from Cons.prems(1) s have h: "torn_down w1 \<and> filter is_data (trace w1) = filter is_data (trace w)
      \<and> exn w1 = exn w" by (rule torn_down_step)
  have "torn_down w' \<and> filter is_data (trace w') = filter is_data (trace w1)
      \<and> exn w' = exn w1" using h r by (intro Cons.IH) simp_all
  with h show ?case by simp
qed

text \<open>C6: \<open>destroy()\<close> while \<open>subscribed\<close> is final: whatever completes or arrives
  afterwards, no payload or op is emitted, nothing throws, and the state stays
  \<open>unsubscribing\<close> or \<open>unsubscribed\<close>.\<close>

theorem destroy_subscribed_final:
  assumes "reach jp i w" and "ready w = Subscribed" and "run jp inps (destroy w) = Some w'"
  shows "filter is_data (trace w') = filter is_data (trace w) \<and> exn w' = exn w \<and>
         (ready w' = Unsubscribing \<or> ready w' = Unsubscribed)"
proof -
  from assms(1,2) have "CGet \<notin># pending w" and "CSub \<notin># pending w"
    by (simp_all add: reach_coord_inv [THEN coord_inv_def [THEN iffD1]])
  with assms(2) have "torn_down (destroy w)"
    by (simp add: torn_down_def destroy_active)
  moreover have "trace (destroy w) = trace w" and "exn (destroy w) = exn w"
    by (simp_all add: destroy_def world_simps)
  ultimately show ?thesis
    using torn_down_run [OF _ assms(3)] by (simp add: torn_down_def)
qed

text \<open>C9: \<open>destroy()\<close> while \<open>subscribing\<close> does not stop an outstanding subscribe
  call: its acknowledgement puts the state back to \<open>subscribed\<close> with the buffer
  \<open>null\<close>, and issues a fetch.\<close>

theorem destroy_subscribing_revived:
  assumes "exn w = None" and "ready w = Subscribing" and "CSub \<in># pending w"
  shows "\<exists>w'. run jp [Destroy, Subscribe_reply None] w = Some w' \<and>
           ready w' = Subscribed \<and> ops w' = None \<and> CFetch \<in># pending w' \<and>
           issued w' = issued w @ [ReqUnsubscribe (sid w), ReqFetch (col w) (sid w) (sel_fields w)]"
  using assms
  by (simp add: destroy_active sub_cb_def fetch_def complete_def world_simps)

text \<open>C24: \<open>destroy()\<close> while \<open>subscribing\<close> or \<open>subscribed\<close> detaches the listener
  and issues an unsubscribe whose success moves the state to \<open>unsubscribed\<close>, without
  emitting anything.\<close>

theorem destroy_then_unsubscribed:
  assumes "exn w = None" and "ready w = Subscribing \<or> ready w = Subscribed"
  shows "\<exists>w'. run jp [Destroy, Unsubscribe_reply None] w = Some w' \<and>
           ready w' = Unsubscribed \<and> \<not> listening w' \<and> trace w' = trace w \<and>
           ops w' = None \<and> payload w' = None"
  using assms
  by (simp add: destroy_active unsub_cb_def complete_def world_simps)

subsection \<open>Races of \<open>destroy()\<close> with outstanding callbacks\<close>

text \<open>C7: \<open>destroy()\<close> while \<open>subscribing\<close>, followed by the subscribe
  acknowledgement and a document: the acknowledgement revives the subscription and issues
  the fetch, and the document makes \<open>emitOps\<close> read \<open>length\<close> of the \<open>null\<close>
  buffer that \<open>destroy()\<close> left, so the \<open>findById\<close> callback throws and nothing
  is emitted.\<close>

theorem race_destroy_subscribing_throws:
  assumes "exn w = None" and "ready w = Subscribing" and "CSub \<in># pending w"
    and "payload_hook w"
  shows "\<exists>w'. run jp [Destroy, Subscribe_reply None, Fetch_reply None (Some d)] w = Some w' \<and>
           exn w' = Some (TypeError ''Cannot read property 'length' of null'') \<and>
           trace w' = trace w \<and>
           issued w' = issued w @ [ReqUnsubscribe (sid w), ReqFetch (col w) (sid w) (sel_fields w)]"
  using assms
  by (simp add: destroy_active sub_cb_def fetch_def fetch_cb_def emit_payload_def emit_ops_def
      complete_def world_simps)

text \<open>C26: after the subscribe acknowledgement has revived a subscription destroyed
  while \<open>subscribing\<close>, a second \<open>destroy()\<close> is effective again: it unsubscribes
  the channel a second time, with two unsubscribe callbacks outstanding.\<close>

theorem race_double_unsubscribe:
  assumes "exn w = None" and "ready w = Subscribing" and "CSub \<in># pending w"
  shows "\<exists>w'. run jp [Destroy, Subscribe_reply None, Destroy] w = Some w' \<and>
           ready w' = Unsubscribing \<and> count (pending w') CUnsub = count (pending w) CUnsub + 2 \<and>
           issued w' = issued w @ [ReqUnsubscribe (sid w), ReqFetch (col w) (sid w) (sel_fields w),
                                   ReqUnsubscribe (sid w)]"
  using assms
  by (simp add: destroy_def sub_cb_def fetch_def complete_def world_simps)

text \<open>C27: \<open>destroy()\<close> while the metadata lookup is outstanding does nothing: when
  the metadata then arrives, the subscription subscribes to its channel and attaches
  \<open>onMessage\<close> as if \<open>destroy()\<close> had not been called, and no unsubscribe is
  ever issued for it.\<close>

theorem destroy_discovering_ignored:
  assumes "exn w = None" and "ready w = Discoverying" and "CGet \<in># pending w"
    and "jp s = Some v"
  shows "\<exists>w'. run jp [Destroy, Get_reply None (Some s)] w = Some w' \<and>
           ready w' = Subscribing \<and> listening w' \<and> CSub \<in># pending w' \<and>
           issued w' = issued w @ [ReqSubscribe (sid w)]"
  using assms
  by (simp add: destroy_def get_cb_def subscribe_def json_arg_def complete_def world_simps)

text \<open>C25: errors are not terminal: on a subscription whose payload is out, a
  malformed message on its channel is one error event, and the next well-formed message
  is still emitted as an op; the state, the listener and the process are untouched.\<close>

theorem errors_not_terminal:
  assumes "exn w = None" and "listening w" and "payload w \<noteq> None"
    and "jp m = None" and "jp m' = Some v"
  shows "\<exists>w'. run jp [Message (sid w) m, Message (sid w) m'] w = Some w' \<and>
           trace w' = trace w @ [EvError ErrParse, EvOp v] \<and>
           ready w' = ready w \<and> listening w' \<and> exn w' = None"
  using assms by (simp add: on_message_def world_simps)

subsection \<open>The lifecycle against the spec's table\<close>

text \<open>C31: every step of a reachable world either keeps \<open>readyState\<close> or moves it
  along an edge of the spec's lifecycle table, with two exceptions, both made by the
  race of \<open>destroy()\<close> with the subscribe call: a successful subscribe acknowledgement
  after teardown has begun moves \<open>unsubscribing\<close> or \<open>unsubscribed\<close> back to
  \<open>subscribed\<close>, and the unsubscribe acknowledgement of that teardown then moves
  \<open>subscribed\<close> straight to \<open>unsubscribed\<close>.\<close>

theorem step_ready_edge:
  assumes "reach jp i w" and "step jp inp w = Some w'"
  shows "ready w' = ready w \<or> spec_edge (ready w) (ready w') \<or>
         (inp = Subscribe_reply None \<and> (ready w = Unsubscribing \<or> ready w = Unsubscribed) \<and>
          ready w' = Subscribed) \<or>
         (inp = Unsubscribe_reply None \<and> ready w = Subscribed \<and> ready w' = Unsubscribed)"
proof -
  from assms(1) have inv: "coord_inv i w" by (rule reach_coord_inv)
  show ?thesis
  proof (cases inp)
    case (Get_reply e d)
    with assms(2) inv show ?thesis
      by (auto simp: coord_inv_def get_cb_def subscribe_def complete_def world_simps
          split: option.splits if_splits)
  next
    case (Subscribe_reply e)
    with assms(2) inv show ?thesis
      by (cases "ready w")
         (auto simp: coord_inv_def sub_cb_def fetch_def complete_def world_simps
          split: option.splits if_splits)
  next
    case (Fetch_reply e d)
    with assms(2) show ?thesis
      by (auto simp: fetch_cb_def complete_def world_simps split: option.splits if_splits)
  next
    case (Unsubscribe_reply e)
    with assms(2) inv show ?thesis
      by (cases "ready w")
         (auto simp: coord_inv_def unsub_cb_def complete_def world_simps
          split: option.splits if_splits)
  next
    case (Message ch m)
    with assms(2) show ?thesis
      by (auto simp: on_message_def world_simps split: option.splits if_splits)
  next
    case Destroy
    with assms(2) show ?thesis
      by (cases "ready w") (auto simp: destroy_def world_simps split: if_splits)
  qed
qed

end
