(* ===== verification/Shared.thy ===== *)
theory Shared
  imports Coordinator
begin

text \<open>
  Several \<open>Subscription\<close> objects of one server. They share the server's Redis
  connection \<open>server.redisSub\<close> (\<open>this.sub\<close>, constructor line 20): \<open>subscribe\<close> and
  \<open>destroy\<close> call \<open>sub.subscribe(id)\<close> and \<open>sub.unsubscribe(id)\<close> on it, and every
  object's \<open>onMessage\<close> is a listener of its one \<open>message\<close> event. The connection
  holds one set of subscribed channels: Redis adds a channel at a \<open>SUBSCRIBE\<close> and
  removes it at an \<open>UNSUBSCRIBE\<close>, however many objects asked for it, and the client
  sees the change when the command's reply arrives (replies and messages arrive on the
  connection in the order Redis sends them). A message published on a channel of the set
  is delivered to every attached listener. The objects live in a list indexed by their
  address, as in a heap; an uncaught exception in any of them ends the process.
\<close>

record ('v, 'd) conn =
  objs :: "('v, 'd) world list"   \<comment> \<open>the \<open>Subscription\<close> objects, by address\<close>
  chans :: "channel set"          \<comment> \<open>the channels \<open>server.redisSub\<close> is subscribed to\<close>

datatype 'd hub_input =
    New sub_id                 \<comment> \<open>the server constructs \<open>new Subscription(server, id)\<close>\<close>
  | Obj nat "'d input"         \<comment> \<open>a callback of, or \<open>destroy()\<close> on, the object at an address\<close>
  | Publish channel string     \<comment> \<open>some client publishes a message on a channel\<close>

definition conn0 :: "('v, 'd) conn" where
  "conn0 = \<lparr>objs = [], chans = {}\<rparr>"

text \<open>What a reply of the shared connection does to its channel set.\<close>

fun chan_effect :: "'d input \<Rightarrow> channel \<Rightarrow> channel set \<Rightarrow> channel set" where
  "chan_effect (Subscribe_reply None) ch cs = insert ch cs"
| "chan_effect (Unsubscribe_reply None) ch cs = cs - {ch}"
| "chan_effect _ _ cs = cs"

fun is_message :: "'d input \<Rightarrow> bool" where
  "is_message (Message _ _) = True"
| "is_message _ = False"

text \<open>The connection's \<open>message\<close> event runs each attached \<open>onMessage\<close>.\<close>

definition deliver :: "'v json_parser \<Rightarrow> channel \<Rightarrow> string \<Rightarrow> ('v, 'd) world \<Rightarrow> ('v, 'd) world" where
  "deliver jp ch m w = (if listening w then on_message jp ch m w else w)"

definition hub_ok :: "('v, 'd) conn \<Rightarrow> bool" where
  "hub_ok h \<longleftrightarrow> list_all (\<lambda>w. exn w = None) (objs h)"

fun hub_step :: "'v json_parser \<Rightarrow> 'd hub_input \<Rightarrow> ('v, 'd) conn \<Rightarrow> ('v, 'd) conn option" where
  "hub_step jp (New i) h =
     (if hub_ok h then Some (h\<lparr>objs := objs h @ [new_subscription i]\<rparr>) else None)"
| "hub_step jp (Obj n inp) h =
     (if hub_ok h \<and> n < length (objs h) \<and> \<not> is_message inp then
        (case step jp inp (objs h ! n) of
           None \<Rightarrow> None
         | Some w' \<Rightarrow> Some (h\<lparr>objs := (objs h)[n := w'],
                               chans := chan_effect inp (sid w') (chans h)\<rparr>))
      else None)"
| "hub_step jp (Publish ch m) h =
     (if \<not> hub_ok h then None
      else if ch \<in> chans h then Some (h\<lparr>objs := map (deliver jp ch m) (objs h)\<rparr>)
      else Some h)"

fun hub_run :: "'v json_parser \<Rightarrow> 'd hub_input list \<Rightarrow> ('v, 'd) conn \<Rightarrow> ('v, 'd) conn option" where
  "hub_run jp [] h = Some h"
| "hub_run jp (x # xs) h = Option.bind (hub_step jp x h) (hub_run jp xs)"

inductive hub_reach :: "'v json_parser \<Rightarrow> ('v, 'd) conn \<Rightarrow> bool" for jp where
  hub_init: "hub_reach jp conn0"
| hub_next: "hub_reach jp h \<Longrightarrow> hub_step jp x h = Some h' \<Longrightarrow> hub_reach jp h'"

lemma hub_step_ObjE:
  assumes "hub_step jp (Obj k inp) h = Some h'"
  obtains w' where "hub_ok h" and "k < length (objs h)" and "\<not> is_message inp"
    and "step jp inp (objs h ! k) = Some w'"
    and "h' = h\<lparr>objs := (objs h)[k := w'], chans := chan_effect inp (sid w') (chans h)\<rparr>"
  using assms by (auto split: if_splits option.splits)

lemma hub_step_NewE:
  assumes "hub_step jp (New i) h = Some h'"
  obtains "hub_ok h" and "h' = h\<lparr>objs := objs h @ [new_subscription i]\<rparr>"
  using assms by (auto split: if_splits)

lemma hub_step_PublishE:
  assumes "hub_step jp (Publish ch m) h = Some h'"
  obtains "hub_ok h" and "ch \<in> chans h" and "h' = h\<lparr>objs := map (deliver jp ch m) (objs h)\<rparr>"
    | "hub_ok h" and "ch \<notin> chans h" and "h' = h"
  using assms by (auto split: if_splits)

lemma hub_reach_run:
  "hub_reach jp h \<Longrightarrow> hub_run jp xs h = Some h' \<Longrightarrow> hub_reach jp h'"
proof (induction xs arbitrary: h)
  case Nil
  then show ?case by simp
next
  case (Cons x xs)
  then obtain h1 where "hub_step jp x h = Some h1" and "hub_run jp xs h1 = Some h'"
    by (auto split: Option.bind_splits)
  with Cons show ?case by (blast intro: hub_next)
qed

subsection \<open>Each object behaves as a subscription on its own\<close>

lemma reach_sid: "reach jp i w \<Longrightarrow> sid w = i"
  by (drule reach_coord_inv) (simp add: coord_inv_def)

lemma sid_new_subscription [simp]: "sid (new_subscription i) = i"
  by (simp add: run_eval)

lemma hub_ok_nth: "hub_ok h \<Longrightarrow> n < length (objs h) \<Longrightarrow> exn (objs h ! n) = None"
  by (simp add: hub_ok_def list_all_length)

lemma deliver_step:
  "exn w = None \<Longrightarrow> listening w \<Longrightarrow> step jp (Message ch m) w = Some (deliver jp ch m w)"
  by (simp add: deliver_def)

text \<open>On a shared connection, every object is at every moment in a state that
  the object alone reaches in some interleaving of its own inputs; every theorem about
  one subscription holds of each object of the server.\<close>

lemma hub_objects_reach:
  assumes "hub_reach jp h" and "n < length (objs h)"
  shows "reach jp (sid (objs h ! n)) (objs h ! n)"
  using assms
proof (induction arbitrary: n rule: hub_reach.induct)
  case hub_init
  then show ?case by (simp add: conn0_def)
next
  case (hub_next h x h')
  show ?case
  proof (cases x)
    case (New i)
    from hub_next.hyps(2) [unfolded New] have h': "objs h' = objs h @ [new_subscription i]"
      by (elim hub_step_NewE) simp
    show ?thesis
    proof (cases "n < length (objs h)")
      case True
      with hub_next.IH [OF True] h' show ?thesis by (simp add: nth_append)
    next
      case False
      with hub_next.prems h' have "objs h' ! n = new_subscription i"
        by (simp add: nth_append)
      then show ?thesis by (simp add: reach_init)
    qed
  next
    case (Obj k inp)
    from hub_next.hyps(2) [unfolded Obj] obtain w' where k: "k < length (objs h)" and
      s: "step jp inp (objs h ! k) = Some w'" and h': "objs h' = (objs h)[k := w']"
      by (elim hub_step_ObjE) fastforce
    have r: "reach jp (sid (objs h ! k)) w'"
      using hub_next.IH [OF k] s by (rule reach_step)
    show ?thesis
    proof (cases "n = k")
      case True
      with r reach_sid [OF r] h' k show ?thesis by simp
    next
      case False
      with hub_next.IH [of n] hub_next.prems h' show ?thesis by simp
    qed
  next
    case (Publish ch m)
    show ?thesis
    proof (cases "ch \<in> chans h")
      case True
      with Publish hub_next.hyps(2) have ok: "hub_ok h"
        and h': "objs h' = map (deliver jp ch m) (objs h)"
        by (auto split: if_splits)
      with hub_next.prems have n: "n < length (objs h)" by simp
      have r: "reach jp (sid (objs h ! n)) (deliver jp ch m (objs h ! n))"
      proof (cases "listening (objs h ! n)")
        case True
        with hub_ok_nth [OF ok n] hub_next.IH [OF n] show ?thesis
          by (blast intro: reach_step deliver_step)
      next
        case False
        with hub_next.IH [OF n] show ?thesis by (simp add: deliver_def)
      qed
      have "sid (deliver jp ch m (objs h ! n)) = sid (objs h ! n)"
        using reach_sid [OF r] by simp
      with r h' n show ?thesis by simp
    next
      case False
      with Publish hub_next show ?thesis by (auto split: if_splits)
    qed
  qed
qed

subsection \<open>The channel table\<close>

lemma step_sid: "step jp inp w = Some w' \<Longrightarrow> sid w' = sid w"
  by (cases inp) (auto simp: handler_defs world_simps complete_def fold_emit_ops Let_def split: if_splits option.splits)

lemma step_to_subscribed:
  "step jp inp w = Some w' \<Longrightarrow> ready w' = Subscribed \<Longrightarrow>
   ready w = Subscribed \<or> inp = Subscribe_reply None"
  by (cases inp) (auto simp: handler_defs world_simps complete_def fold_emit_ops Let_def split: if_splits option.splits)

lemma step_unsub_ack: "step jp (Unsubscribe_reply None) w = Some w' \<Longrightarrow> ready w' = Unsubscribed"
  by (auto simp: unsub_cb_def complete_def split: if_splits)

lemma ready_deliver [simp]: "ready (deliver jp ch m w) = ready w"
  by (simp add: deliver_def on_message_def world_simps split: option.split)

lemma sid_deliver [simp]: "sid (deliver jp ch m w) = sid w"
  by (simp add: deliver_def on_message_def world_simps split: option.split)

lemma sid_comp_deliver [simp]: "sid \<circ> deliver jp ch m = sid"
  by (simp add: fun_eq_iff)

lemma chan_effect_keeps:
  "x \<in> cs \<Longrightarrow> inp \<noteq> Unsubscribe_reply None \<or> x \<noteq> c \<Longrightarrow> x \<in> chan_effect inp c cs"
  by (cases "(inp, c, cs)" rule: chan_effect.cases) auto

lemma chan_effect_subscribe: "c \<in> chan_effect (Subscribe_reply None) c cs"
  by simp

text \<open>C13: while no two objects share an id, the channel of every subscribed object
  is subscribed on the shared connection, so messages published on it reach the
  object.\<close>

theorem hub_subscribed_channel:
  assumes "hub_reach jp h" and "distinct (map sid (objs h))"
    and "n < length (objs h)" and "ready (objs h ! n) = Subscribed"
  shows "sid (objs h ! n) \<in> chans h"
  using assms
proof (induction arbitrary: n rule: hub_reach.induct)
  case hub_init
  then show ?case by (simp add: conn0_def)
next
  case (hub_next h x h')
  show ?case
  proof (cases x)
    case (New i)
    from hub_next.hyps(2) [unfolded New]
    have h': "h' = h\<lparr>objs := objs h @ [new_subscription i]\<rparr>"
      by (elim hub_step_NewE) simp
    have "n < length (objs h)"
      using hub_next.prems h' by (cases "n < length (objs h)") (auto simp: nth_append run_eval)
    with hub_next.IH [of n] hub_next.prems h' show ?thesis
      by (simp add: nth_append)
  next
    case (Obj k inp)
    from hub_next.hyps(2) [unfolded Obj] obtain w' where k: "k < length (objs h)" and
      s: "step jp inp (objs h ! k) = Some w'" and
      h': "h' = h\<lparr>objs := (objs h)[k := w'], chans := chan_effect inp (sid w') (chans h)\<rparr>"
      by (elim hub_step_ObjE) fastforce
    have sk: "sid w' = sid (objs h ! k)"
      using s by (rule step_sid)
    have sids: "map sid (objs h') = map sid (objs h)"
      using h' sk k by (simp add: map_update) (metis list_update_id nth_map)
    with hub_next.prems have d: "distinct (map sid (objs h))" and n: "n < length (objs h)"
      by (simp_all add: h')
    show ?thesis
    proof (cases "n = k")
      case True
      with hub_next.prems h' k have sub: "ready w' = Subscribed" by simp
      from step_to_subscribed [OF s sub] show ?thesis
      proof
        assume "ready (objs h ! k) = Subscribed"
        with hub_next.IH [OF d k] have "sid w' \<in> chans h" using sk by simp
        moreover have "inp \<noteq> Unsubscribe_reply None"
          using sub step_unsub_ack [of jp "objs h ! k" w'] s by auto
        ultimately show ?thesis
          using True h' k by (simp add: chan_effect_keeps)
      next
        assume "inp = Subscribe_reply None"
        with True h' k show ?thesis by simp
      qed
    next
      case False
      with hub_next.prems h' have "ready (objs h ! n) = Subscribed" by simp
      with hub_next.IH [OF d n] have "sid (objs h ! n) \<in> chans h" .
      moreover have "sid (objs h ! n) \<noteq> sid w'"
        using d n k False sk by (simp add: distinct_conv_nth)
      ultimately show ?thesis
        using False h' by (simp add: chan_effect_keeps)
    qed
  next
    case (Publish ch m)
    from hub_next.hyps(2) [unfolded Publish] show ?thesis
    proof (cases rule: hub_step_PublishE)
      case 1
      with hub_next.prems hub_next.IH [of n] show ?thesis by simp
    next
      case 2
      with hub_next.prems hub_next.IH [of n] show ?thesis by simp
    qed
  qed
qed

subsection \<open>One object's teardown and the others\<close>

text \<open>C22: a message published on a channel leaves every object with another id
  unchanged.\<close>

theorem publish_other_channel:
  assumes "hub_step jp (Publish ch m) h = Some h'" and "n < length (objs h)"
    and "sid (objs h ! n) \<noteq> ch"
  shows "objs h' ! n = objs h ! n"
  using assms(1)
proof (cases rule: hub_step_PublishE)
  case 1
  with assms(2,3) show ?thesis by (simp add: deliver_def on_message_def)
next
  case 2
  then show ?thesis by simp
qed

text \<open>Once the unsubscribe of one object is acknowledged, its channel is gone
  from the shared connection, and a message published on it changes no object at all.\<close>

lemma unsubscribe_ack_silences_channel:
  assumes "hub_step jp (Obj k (Unsubscribe_reply None)) h = Some h'"
  shows "sid (objs h' ! k) \<notin> chans h' \<and>
         (\<forall>m. hub_step jp (Publish (sid (objs h' ! k)) m) h' = Some h')"
proof -
  from assms obtain w' where k: "k < length (objs h)" and ok: "hub_ok h"
    and s: "step jp (Unsubscribe_reply None) (objs h ! k) = Some w'"
    and h': "h' = h\<lparr>objs := (objs h)[k := w'], chans := chans h - {sid w'}\<rparr>"
    by (elim hub_step_ObjE) fastforce
  have "exn w' = None"
    using s by (auto simp: unsub_cb_def complete_def split: if_splits)
  with ok k h' have "hub_ok h'"
    by (auto simp: hub_ok_def list_all_length nth_list_update)
  with h' k show ?thesis by simp
qed

lemma hub_step_destroy:
  assumes "hub_ok h" and "k < length (objs h)"
    and "ready (objs h ! k) = Subscribing \<or> ready (objs h ! k) = Subscribed"
  shows "\<exists>h'. hub_step jp (Obj k Destroy) h = Some h' \<and> objs h' = (objs h)[k := destroy (objs h ! k)] \<and>
           chans h' = chans h \<and> hub_ok h' \<and> CUnsub \<in># pending (objs h' ! k)"
proof -
  have "exn (destroy (objs h ! k)) = None"
    using assms by (simp add: hub_ok_nth destroy_active)
  with assms show ?thesis
    by (auto simp: hub_ok_def list_all_length nth_list_update hub_ok_nth destroy_active)
qed

text \<open>C8: two objects of one server subscribed to the same id share the channel of
  the one Redis connection. When one of them is destroyed and its unsubscribe is
  acknowledged, the channel is gone for both: the other object is left exactly as it
  was, \<open>subscribed\<close> with \<open>onMessage\<close> attached, and every message published on
  its channel from then on is dropped without reaching it.\<close>

theorem shared_id_starvation:
  assumes "hub_ok h" and "k < length (objs h)" and "n < length (objs h)" and "n \<noteq> k"
    and "sid (objs h ! n) = sid (objs h ! k)"
    and "ready (objs h ! k) = Subscribing \<or> ready (objs h ! k) = Subscribed"
    and "ready (objs h ! n) = Subscribed" and "listening (objs h ! n)"
  shows "\<exists>h'. hub_run jp [Obj k Destroy, Obj k (Unsubscribe_reply None)] h = Some h' \<and>
           objs h' ! n = objs h ! n \<and> ready (objs h' ! n) = Subscribed \<and>
           listening (objs h' ! n) \<and> sid (objs h ! n) \<notin> chans h' \<and>
           (\<forall>m. hub_step jp (Publish (sid (objs h ! n)) m) h' = Some h')"
proof -
  from hub_step_destroy [OF assms(1,2,6)] obtain h1 where s1: "hub_step jp (Obj k Destroy) h = Some h1"
    and o1: "objs h1 = (objs h)[k := destroy (objs h ! k)]" and ok1: "hub_ok h1"
    and u: "CUnsub \<in># pending (objs h1 ! k)"
    by blast
  have k1: "k < length (objs h1)" using o1 assms(2) by simp
  have "exn (objs h1 ! k) = None" using ok1 k1 by (rule hub_ok_nth)
  with u obtain w' where "step jp (Unsubscribe_reply None) (objs h1 ! k) = Some w'" by simp
  with ok1 k1 obtain h2 where s2: "hub_step jp (Obj k (Unsubscribe_reply None)) h1 = Some h2"
    and o2: "objs h2 = (objs h1)[k := w']" by simp
  have sk: "sid (objs h2 ! k) = sid (objs h ! n)"
    using o2 o1 k1 assms(2,5) step_sid [OF \<open>step jp _ (objs h1 ! k) = Some w'\<close>]
    by (simp add: destroy_def world_simps)
  from unsubscribe_ack_silences_channel [OF s2] sk
  have "sid (objs h ! n) \<notin> chans h2 \<and> (\<forall>m. hub_step jp (Publish (sid (objs h ! n)) m) h2 = Some h2)"
    by simp
  moreover have "objs h2 ! n = objs h ! n" using o1 o2 assms(4) by simp
  ultimately show ?thesis using s1 s2 assms(7,8) by simp
qed

end
