(* ===== verification/Fifo.thy ===== *)
theory Fifo
  imports Shared
begin

text \<open>
  The replies of the shared connection \<open>server.redisSub\<close> in the order Redis sends
  them. Redis answers the commands of one connection in the order it receives them, so
  the \<open>subscribe\<close> and \<open>unsubscribe\<close> callbacks of all objects run in the order
  their calls were made (\<open>sub.subscribe\<close>, line 68, and \<open>sub.unsubscribe\<close>, line 150).
  The state of \<open>Shared\<close> is paired with the queue of outstanding replies, each tagged
  with the address of the object that made the call; a reply input is accepted only for
  the head of the queue, and the calls a step makes are appended to it. The queue is
  the list model of the multiset \<open>pending\<close> restricted to these two callbacks, as a
  transfer list refines a set.
\<close>

type_synonym ('v, 'd) fstate = "('v, 'd) conn \<times> (nat \<times> call) list"

text \<open>The callback each call leaves outstanding (as \<open>issue\<close> pairs them), and the
  callback an input runs.\<close>

fun req_call :: "request \<Rightarrow> call" where
  "req_call (ReqGet _) = CGet"
| "req_call (ReqSubscribe _) = CSub"
| "req_call (ReqFetch _ _ _) = CFetch"
| "req_call (ReqUnsubscribe _) = CUnsub"

fun input_calls :: "'d input \<Rightarrow> call list" where
  "input_calls (Get_reply _ _) = [CGet]"
| "input_calls (Subscribe_reply _) = [CSub]"
| "input_calls (Fetch_reply _ _) = [CFetch]"
| "input_calls (Unsubscribe_reply _) = [CUnsub]"
| "input_calls _ = []"

fun is_sub_call :: "call \<Rightarrow> bool" where
  "is_sub_call CSub = True"
| "is_sub_call CUnsub = True"
| "is_sub_call _ = False"

text \<open>The commands of \<open>sub\<close> among the calls \<open>rs\<close> of the object at \<open>k\<close>.\<close>

definition sent :: "nat \<Rightarrow> request list \<Rightarrow> (nat \<times> call) list" where
  "sent k rs = map (Pair k) (filter is_sub_call (map req_call rs))"

definition fifo0 :: "('v, 'd) fstate" where
  "fifo0 = (conn0, [])"

fun fifo_step :: "'v json_parser \<Rightarrow> 'd hub_input \<Rightarrow> ('v, 'd) fstate \<Rightarrow> ('v, 'd) fstate option" where
  "fifo_step jp (Obj k inp) (h, q) =
     (let rc = filter is_sub_call (input_calls inp) in
      if rc = [] \<or> (q \<noteq> [] \<and> rc = [snd (hd q)] \<and> fst (hd q) = k) then
        map_option
          (\<lambda>h'. (h', (if rc = [] then q else tl q) @
                     sent k (drop (length (issued (objs h ! k))) (issued (objs h' ! k)))))
          (hub_step jp (Obj k inp) h)
      else None)"
| "fifo_step jp x (h, q) = map_option (\<lambda>h'. (h', q)) (hub_step jp x h)"

fun fifo_run :: "'v json_parser \<Rightarrow> 'd hub_input list \<Rightarrow> ('v, 'd) fstate \<Rightarrow> ('v, 'd) fstate option" where
  "fifo_run jp [] s = Some s"
| "fifo_run jp (x # xs) s = Option.bind (fifo_step jp x s) (fifo_run jp xs)"

inductive fifo_reach :: "'v json_parser \<Rightarrow> ('v, 'd) fstate \<Rightarrow> bool" for jp where
  fifo_init: "fifo_reach jp fifo0"
| fifo_next: "fifo_reach jp s \<Longrightarrow> fifo_step jp x s = Some s' \<Longrightarrow> fifo_reach jp s'"

text \<open>The replies queued for the object at \<open>k\<close>, in order.\<close>

definition queued :: "nat \<Rightarrow> (nat \<times> call) list \<Rightarrow> call list" where
  "queued k q = map snd (filter (\<lambda>p. fst p = k) q)"

text \<open>A subscribe reply can only be the first reply queued for an object.\<close>

definition sub_first :: "call list \<Rightarrow> bool" where
  "sub_first cs \<longleftrightarrow> sorted_wrt (\<lambda>_ b. b \<noteq> CSub) cs"

definition fifo_inv :: "('v, 'd) fstate \<Rightarrow> bool" where
  "fifo_inv s \<longleftrightarrow>
     (\<forall>p\<in>set (snd s). fst p < length (objs (fst s))) \<and>
     (\<forall>k < length (objs (fst s)).
        mset (queued k (snd s)) = filter_mset is_sub_call (pending (objs (fst s) ! k)) \<and>
        sub_first (queued k (snd s)) \<and>
        (ready (objs (fst s) ! k) = Unsubscribed \<longrightarrow> CSub \<notin># pending (objs (fst s) ! k)))"

lemma fifo_reach_run:
  "fifo_reach jp s \<Longrightarrow> fifo_run jp xs s = Some s' \<Longrightarrow> fifo_reach jp s'"
proof (induction xs arbitrary: s)
  case Nil
  then show ?case by simp
next
  case (Cons x xs)
  then obtain s1 where "fifo_step jp x s = Some s1" and "fifo_run jp xs s1 = Some s'"
    by (auto split: Option.bind_splits)
  with Cons show ?case by (blast intro: fifo_next)
qed

subsection \<open>What one step does to the calls\<close>

lemma step_issued:
  assumes "step jp inp w = Some w'"
  shows "\<exists>N. issued w' = issued w @ N \<and>
             pending w' + mset (input_calls inp) = pending w + mset (map req_call N)"
  using assms
  by (cases inp) (auto simp: handler_defs world_simps complete_def fold_emit_ops Let_def
                       split: if_splits option.splits)

lemma step_new_subs:
  assumes "step jp inp w = Some w'" and "issued w' = issued w @ N"
  shows "filter is_sub_call (map req_call N) = [] \<or>
         filter is_sub_call (map req_call N) = [CUnsub] \<or>
         (filter is_sub_call (map req_call N) = [CSub] \<and> CGet \<in># pending w)"
  using assms
  by (cases inp) (auto simp: handler_defs world_simps complete_def fold_emit_ops Let_def
                       split: if_splits option.splits)

lemma step_unsubscribed:
  assumes "step jp inp w = Some w'" and "ready w = Unsubscribed"
    and "CGet \<notin># pending w" and "CSub \<notin># pending w"
  shows "ready w' = Unsubscribed"
  using assms
  by (cases inp) (auto simp: handler_defs world_simps complete_def fold_emit_ops Let_def
                       split: if_splits option.splits)

lemma step_into_unsubscribed:
  assumes "step jp inp w = Some w'" and "ready w' = Unsubscribed" and "ready w \<noteq> Unsubscribed"
  shows "inp = Unsubscribe_reply None"
  using assms
  by (cases inp) (auto simp: handler_defs world_simps complete_def fold_emit_ops Let_def
                       split: if_splits option.splits)

lemma pending_deliver [simp]: "pending (deliver jp ch m w) = pending w"
  by (simp add: deliver_def on_message_def world_simps split: option.split)

lemma issued_deliver [simp]: "issued (deliver jp ch m w) = issued w"
  by (simp add: deliver_def on_message_def world_simps split: option.split)

subsection \<open>The queue\<close>

lemma queued_append [simp]: "queued k (q @ q') = queued k q @ queued k q'"
  by (simp add: queued_def)

lemma queued_sent:
  "queued j (sent k N) = (if j = k then filter is_sub_call (map req_call N) else [])"
  by (induction N) (auto simp: queued_def sent_def)

lemma queued_hd:
  assumes "q \<noteq> []"
  shows "queued (fst (hd q)) q = snd (hd q) # queued (fst (hd q)) (tl q)"
    and "j \<noteq> fst (hd q) \<Longrightarrow> queued j (tl q) = queued j q"
  using assms by (cases q; simp add: queued_def)+

lemma sent_fst: "p \<in> set (sent k N) \<Longrightarrow> fst p = k"
  by (auto simp: sent_def)

lemma sub_first_tl: "sub_first cs \<Longrightarrow> sub_first (tl cs)"
  by (cases cs) (simp_all add: sub_first_def)

lemma sub_first_snoc_unsub: "sub_first cs \<Longrightarrow> sub_first (cs @ [CUnsub])"
  by (simp add: sub_first_def sorted_wrt_append)

lemma sub_first_head: "sub_first (c # cs) \<Longrightarrow> CSub \<notin> set cs"
  by (auto simp: sub_first_def)

lemma coord_inv_CGet:
  assumes "coord_inv i w" and "CGet \<in># pending w"
  shows "ready w = Discoverying" and "filter_mset is_sub_call (pending w) = {#}"
proof -
  show d: "ready w = Discoverying"
    using assms by (auto simp: coord_inv_def)
  with assms(1) have "set_mset (pending w) \<subseteq> {CGet}"
    by (simp add: coord_inv_def)
  then show "filter_mset is_sub_call (pending w) = {#}"
    by (auto simp: filter_mset_eq_conv)
qed

lemma queued_member:
  assumes "mset qk = filter_mset is_sub_call P" and "is_sub_call c"
  shows "c \<in> set qk \<longleftrightarrow> c \<in># P"
proof -
  have "c \<in> set qk \<longleftrightarrow> c \<in># filter_mset is_sub_call P"
    using assms(1) by (metis set_mset_mset)
  with assms(2) show ?thesis by simp
qed

text \<open>One object's step against its queued replies \<open>qk\<close>: the reply the step
  runs, if any, is the head of \<open>qk\<close>; \<open>qb\<close> is what remains.\<close>

lemma queue_step_one:
  assumes st: "step jp inp w = Some w'" and N: "issued w' = issued w @ N"
    and ci: "coord_inv i w"
    and split: "(filter is_sub_call (input_calls inp) = [] \<and> qk = qb) \<or>
                (\<exists>c. filter is_sub_call (input_calls inp) = [c] \<and> qk = c # qb)"
    and eq: "mset qk = filter_mset is_sub_call (pending w)" and sf: "sub_first qk"
    and un: "ready w = Unsubscribed \<longrightarrow> CSub \<notin># pending w"
  shows "mset (qb @ filter is_sub_call (map req_call N)) = filter_mset is_sub_call (pending w') \<and>
         sub_first (qb @ filter is_sub_call (map req_call N)) \<and>
         (ready w' = Unsubscribed \<longrightarrow> CSub \<notin># pending w')"
proof -
  let ?rc = "filter is_sub_call (input_calls inp)"
  let ?new = "filter is_sub_call (map req_call N)"
  obtain N' where N': "issued w' = issued w @ N'"
    and p: "pending w' + mset (input_calls inp) = pending w + mset (map req_call N')"
    using step_issued [OF st] by blast
  from N N' have "N' = N" by simp
  with p have "filter_mset is_sub_call (pending w') + mset ?rc =
                 filter_mset is_sub_call (pending w) + mset ?new"
    by (metis mset_filter filter_union_mset)
  moreover have "mset qk = mset ?rc + mset qb"
    using split by (auto simp del: mset_filter)
  ultimately have m: "mset (qb @ ?new) = filter_mset is_sub_call (pending w')"
    using eq by (simp add: add.commute add.left_commute)
  have sqb: "sub_first qb"
    using split sf sub_first_tl [of qk] by auto
  have noget: "CGet \<notin># pending w \<Longrightarrow> CSub \<notin> set ?new"
    using step_new_subs [OF st N] by (auto simp del: set_filter)
  have s: "sub_first (qb @ ?new)"
    using step_new_subs [OF st N]
  proof (elim disjE conjE)
    assume "?new = []" then show ?thesis using sqb by simp
  next
    assume "?new = [CUnsub]" then show ?thesis using sqb by (simp add: sub_first_snoc_unsub)
  next
    assume n: "?new = [CSub]" and g: "CGet \<in># pending w"
    have "mset qk = {#}"
      using eq coord_inv_CGet(2) [OF ci g] by (simp only:)
    then have "qk = []" by simp
    with split have "qb = []" by auto
    with n show ?thesis by (simp add: sub_first_def)
  qed
  have u: "CSub \<notin># pending w'" if r: "ready w' = Unsubscribed"
  proof -
    have "CSub \<notin> set qb \<and> CGet \<notin># pending w"
    proof (cases "ready w = Unsubscribed")
      case True
      with un queued_member [OF eq, of CSub] have "CSub \<notin> set qk" by simp
      moreover have "CGet \<notin># pending w"
        using True coord_inv_CGet(1) [OF ci] by auto
      ultimately show ?thesis using split by auto
    next
      case False
      with st r have "inp = Unsubscribe_reply None" by (rule step_into_unsubscribed)
      with split have qk: "qk = CUnsub # qb" by auto
      then have "CUnsub \<in># pending w"
        using queued_member [OF eq, of CUnsub] by simp
      then have "CGet \<notin># pending w"
        using coord_inv_CGet [OF ci] ci by (auto simp: coord_inv_def)
      with qk sf show ?thesis by (auto dest: sub_first_head)
    qed
    with noget have "CSub \<notin> set (qb @ ?new)" by auto
    with queued_member [OF m, of CSub] show ?thesis by simp
  qed
  from m s u show ?thesis by blast
qed

subsection \<open>The invariant\<close>

lemma new_subscription_calls [simp]:
  "pending (new_subscription i) = {#CGet#}" "ready (new_subscription i) = Discoverying"
  by (simp_all add: run_eval)

lemma queued_none: "\<forall>p\<in>set q. fst p < n \<Longrightarrow> queued n q = []"
  by (auto simp: queued_def filter_empty_conv)

lemma fifo_step_hub: "fifo_step jp x (h, q) = Some (h', q') \<Longrightarrow> hub_step jp x h = Some h'"
  by (cases x) (auto simp: Let_def split: if_splits)

lemma fifo_step_Obj:
  assumes "fifo_step jp (Obj k inp) (h, q) = Some (h', q')"
  shows "(filter is_sub_call (input_calls inp) = [] \<and>
            q' = q @ sent k (drop (length (issued (objs h ! k))) (issued (objs h' ! k)))) \<or>
         (q \<noteq> [] \<and> filter is_sub_call (input_calls inp) = [snd (hd q)] \<and> fst (hd q) = k \<and>
            q' = tl q @ sent k (drop (length (issued (objs h ! k))) (issued (objs h' ! k))))"
  using assms by (auto simp: Let_def split: if_splits)

lemma fifo_step_other:
  "fifo_step jp (New i) (h, q) = Some (h', q') \<Longrightarrow> q' = q"
  "fifo_step jp (Publish ch m) (h, q) = Some (h', q') \<Longrightarrow> q' = q"
  by auto

lemma fifo_inv_obj:
  assumes inv: "fifo_inv (h, q)" and hr: "hub_reach jp h"
    and st: "fifo_step jp (Obj k inp) (h, q) = Some (h', q')"
  shows "fifo_inv (h', q')"
proof -
  from fifo_step_hub [OF st] obtain w' where k: "k < length (objs h)"
    and sw: "step jp inp (objs h ! k) = Some w'"
    and h': "h' = h\<lparr>objs := (objs h)[k := w'], chans := chan_effect inp (sid w') (chans h)\<rparr>"
    by (elim hub_step_ObjE) fastforce
  let ?w = "objs h ! k"
  obtain N where N: "issued w' = issued ?w @ N"
    using step_issued [OF sw] by blast
  have ci: "coord_inv (sid ?w) ?w"
    using reach_coord_inv hub_objects_reach [OF hr k] by blast
  let ?new = "filter is_sub_call (map req_call N)"
  define qb where "qb = (if filter is_sub_call (input_calls inp) = [] then queued k q
                         else queued k (tl q))"
  have dropN: "drop (length (issued (objs h ! k))) (issued (objs h' ! k)) = N"
    using N h' k by simp
  have sets: "set (tl q) \<subseteq> set q"
    by (cases q) auto
  let ?rc = "filter is_sub_call (input_calls inp)"
  from fifo_step_Obj [OF st, unfolded dropN]
  consider (plain) "?rc = []" "q' = q @ sent k N"
    | (reply) "q \<noteq> []" "?rc = [snd (hd q)]" "fst (hd q) = k" "q' = tl q @ sent k N"
    by blast
  note c = this
  have shape: "(?rc = [] \<and> queued k q = qb) \<or> (\<exists>c. ?rc = [c] \<and> queued k q = c # qb)"
  proof (cases rule: c)
    case plain then show ?thesis by (simp add: qb_def)
  next
    case reply then show ?thesis using queued_hd(1) [of q] by (simp add: qb_def)
  qed
  have qk': "queued k q' = qb @ ?new"
  proof (cases rule: c)
    case plain then show ?thesis by (simp add: qb_def queued_sent)
  next
    case reply then show ?thesis by (simp add: qb_def queued_sent)
  qed
  have qj: "queued j q' = queued j q" if j: "j \<noteq> k" for j
  proof (cases rule: c)
    case plain then show ?thesis using j by (simp add: queued_sent)
  next
    case reply then show ?thesis using j queued_hd(2) [of q j] by (simp add: queued_sent)
  qed
  have qs: "set q' \<subseteq> set q \<union> set (sent k N)"
  proof (cases rule: c)
    case plain then show ?thesis by simp
  next
    case reply then show ?thesis using sets by auto
  qed
  from qs inv k have qset: "\<forall>p\<in>set q'. fst p < length (objs h)"
    by (auto simp: fifo_inv_def dest: sent_fst)
  have invk: "mset (queued k q) = filter_mset is_sub_call (pending ?w)"
    "sub_first (queued k q)" "ready ?w = Unsubscribed \<longrightarrow> CSub \<notin># pending ?w"
    using inv k by (simp_all add: fifo_inv_def)
  from queue_step_one [OF sw N ci shape invk] qk'
  have one: "mset (queued k q') = filter_mset is_sub_call (pending w')"
    "sub_first (queued k q')" "ready w' = Unsubscribed \<longrightarrow> CSub \<notin># pending w'"
    by simp_all
  show ?thesis
    unfolding fifo_inv_def
  proof (intro conjI allI impI)
    show "\<forall>p\<in>set (snd (h', q')). fst p < length (objs (fst (h', q')))"
      using qset h' by simp
  next
    fix j assume "j < length (objs (fst (h', q')))"
    with h' have j: "j < length (objs h)" by simp
    show "mset (queued j (snd (h', q'))) = filter_mset is_sub_call (pending (objs (fst (h', q')) ! j))"
      using one(1) qj inv j h' by (cases "j = k") (simp_all add: fifo_inv_def)
    show "sub_first (queued j (snd (h', q')))"
      using one(2) qj inv j h' by (cases "j = k") (simp_all add: fifo_inv_def)
    show "ready (objs (fst (h', q')) ! j) = Unsubscribed \<Longrightarrow> CSub \<notin># pending (objs (fst (h', q')) ! j)"
      using one(3) qj inv j h' by (cases "j = k") (simp_all add: fifo_inv_def)
  qed
qed

lemma fifo_inv_new:
  assumes inv: "fifo_inv (h, q)" and st: "fifo_step jp (New i) (h, q) = Some (h', q')"
  shows "fifo_inv (h', q')"
proof -
  from st have q': "q' = q" and "hub_step jp (New i) h = Some h'" by auto
  then have h': "objs h' = objs h @ [new_subscription i]"
    by (elim hub_step_NewE) simp
  have none: "queued (length (objs h)) q = []"
    using inv by (intro queued_none) (simp add: fifo_inv_def)
  show ?thesis
    unfolding fifo_inv_def
  proof (intro conjI allI impI)
    show "\<forall>p\<in>set (snd (h', q')). fst p < length (objs (fst (h', q')))"
      using inv q' h' by (auto simp: fifo_inv_def)
  next
    fix j assume "j < length (objs (fst (h', q')))"
    with h' have j: "j < length (objs h) \<or> j = length (objs h)" by auto
    then show "mset (queued j (snd (h', q'))) = filter_mset is_sub_call (pending (objs (fst (h', q')) ! j))"
      and "sub_first (queued j (snd (h', q')))"
      and "ready (objs (fst (h', q')) ! j) = Unsubscribed \<Longrightarrow> CSub \<notin># pending (objs (fst (h', q')) ! j)"
      using inv q' h' none by (auto simp: fifo_inv_def nth_append sub_first_def)
  qed
qed

lemma fifo_inv_publish:
  assumes inv: "fifo_inv (h, q)" and st: "fifo_step jp (Publish ch m) (h, q) = Some (h', q')"
  shows "fifo_inv (h', q')"
proof -
  from st have q': "q' = q" and s: "hub_step jp (Publish ch m) h = Some h'" by auto
  from s have "objs h' = map (deliver jp ch m) (objs h) \<or> h' = h"
    by (elim hub_step_PublishE) simp_all
  with inv q' show ?thesis by (auto simp: fifo_inv_def)
qed

lemma fifo_reach_inv: "fifo_reach jp s \<Longrightarrow> fifo_inv s \<and> hub_reach jp (fst s)"
proof (induction rule: fifo_reach.induct)
  case fifo_init
  have "fifo_inv (fifo0 :: ('a, 'b) fstate)"
    by (simp add: fifo0_def fifo_inv_def conn0_def queued_def)
  then show ?case by (simp add: fifo0_def hub_init)
next
  case (fifo_next s x s')
  obtain h q h' q' where s: "s = (h, q)" and s': "s' = (h', q')" by fastforce
  with fifo_next have inv: "fifo_inv (h, q)" and hr: "hub_reach jp h"
    and st: "fifo_step jp x (h, q) = Some (h', q')" by simp_all
  have "hub_reach jp h'"
    using hr fifo_step_hub [OF st] by (rule hub_next)
  moreover have "fifo_inv (h', q')"
    using inv hr st
    by (cases x) (auto intro: fifo_inv_obj fifo_inv_new fifo_inv_publish)
  ultimately show ?case by (simp add: s')
qed

subsection \<open>What the order of replies guarantees\<close>

text \<open>C12: with the replies in order, \<open>unsubscribed\<close> is final: no input moves an
  object out of it. (Without the order, \<open>Coordinator.step_ready_edge\<close> admits a
  subscribe reply that arrives after the unsubscribe reply and revives the object.)\<close>

theorem fifo_unsubscribed_final:
  assumes "fifo_reach jp (h, q)" and "fifo_step jp x (h, q) = Some (h', q')"
    and "k < length (objs h)" and "ready (objs h ! k) = Unsubscribed"
  shows "ready (objs h' ! k) = Unsubscribed"
proof -
  from fifo_reach_inv [OF assms(1)] have inv: "fifo_inv (h, q)" and hr: "hub_reach jp h"
    by simp_all
  have ci: "coord_inv (sid (objs h ! k)) (objs h ! k)"
    using reach_coord_inv hub_objects_reach [OF hr assms(3)] by blast
  have nocsub: "CSub \<notin># pending (objs h ! k)"
    using inv assms(3,4) by (simp add: fifo_inv_def)
  have noget: "CGet \<notin># pending (objs h ! k)"
    using coord_inv_CGet(1) [OF ci] assms(4) by auto
  have hs: "hub_step jp x h = Some h'" using fifo_step_hub [OF assms(2)] .
  show ?thesis
  proof (cases x)
    case (New i)
    from hs [unfolded New] have "objs h' = objs h @ [new_subscription i]"
      by (elim hub_step_NewE) simp
    with assms(3,4) show ?thesis by (simp add: nth_append)
  next
    case (Obj j inp)
    from hs [unfolded Obj] obtain w' where "step jp inp (objs h ! j) = Some w'"
      and "objs h' = (objs h)[j := w']"
      by (elim hub_step_ObjE) fastforce
    with assms(3,4) nocsub noget show ?thesis
      by (cases "j = k") (simp_all add: step_unsubscribed)
  next
    case (Publish ch m)
    from hs [unfolded Publish] have "objs h' = map (deliver jp ch m) (objs h) \<or> h' = h"
      by (elim hub_step_PublishE) simp_all
    with assms(3,4) show ?thesis by auto
  qed
qed

end
