(* ===== verification/Ordering.thy ===== *)
theory Ordering
  imports Coordinator
begin

text \<open>
  The buffering and replay of ops (\<open>onMessage\<close>, \<open>emitOps\<close> and the \<open>once\<close>
  registration in the constructor of \<open>src/subscription.js\<close>), over every run in which
  the owner does not call \<open>destroy()\<close>. The abstract specification is the list of
  ops that arrived: the parsed bodies of the messages on the subscription's own channel,
  in arrival order (\<open>arrived\<close>). The theorems say that the ops the listeners receive,
  followed by the ops still buffered, are exactly that list, and where the payload falls
  in the listeners' view: after the ops buffered before the fetch completed, not before
  them.
\<close>

fun msg_op :: "'v json_parser \<Rightarrow> sub_id \<Rightarrow> 'd input \<Rightarrow> 'v list" where
  "msg_op jp i (Message ch m) = (if ch = i then (case jp m of Some v \<Rightarrow> [v] | None \<Rightarrow> []) else [])"
| "msg_op jp i _ = []"

definition arrived :: "'v json_parser \<Rightarrow> sub_id \<Rightarrow> 'd input list \<Rightarrow> 'v list" where
  "arrived jp i inps = concat (map (msg_op jp i) inps)"

fun op_values :: "('v, 'd) event list \<Rightarrow> 'v list" where
  "op_values [] = []"
| "op_values (EvOp v # evs) = v # op_values evs"
| "op_values (_ # evs) = op_values evs"

fun is_fetch_reply :: "'d input \<Rightarrow> bool" where
  "is_fetch_reply (Fetch_reply _ _) = True"
| "is_fetch_reply _ = False"

text \<open>The listeners' view of data events, for a run without \<open>destroy()\<close>: before the
  payload, nothing, with every arrived op buffered; after it, the ops that arrived before
  the \<open>findById\<close> reply that delivered it, then the payload, then the ops that arrived
  after that reply.\<close>

definition ord_inv :: "'v json_parser \<Rightarrow> sub_id \<Rightarrow> 'd input list \<Rightarrow> ('v, 'd) world \<Rightarrow> bool" where
  "ord_inv jp i inps w \<longleftrightarrow>
     payload_hook w = (payload w = None) \<and>
     (case payload w of
        None \<Rightarrow> filter is_data (trace w) = [] \<and> ops w = Some (arrived jp i inps)
      | Some d \<Rightarrow> ops w = Some [] \<and>
          (\<exists>pre post. inps = pre @ Fetch_reply None (Some d) # post \<and>
             filter is_data (trace w) =
               map EvOp (arrived jp i pre) @ EvPayload d # map EvOp (arrived jp i post)))"

text \<open>The metadata, subscribe and fetch callbacks outstanding.\<close>

definition calls3 :: "('v, 'd) world \<Rightarrow> nat" where
  "calls3 w = count (pending w) CGet + count (pending w) CSub + count (pending w) CFetch"

lemma arrived_Nil [simp]: "arrived jp i [] = []"
  by (simp add: arrived_def)

lemma arrived_append [simp]: "arrived jp i (xs @ ys) = arrived jp i xs @ arrived jp i ys"
  by (simp add: arrived_def)

lemma arrived_fetch [simp]: "arrived jp i (Fetch_reply e d # xs) = arrived jp i xs"
  by (simp add: arrived_def)

lemma arrived_single [simp]: "arrived jp i [inp] = msg_op jp i inp"
  by (simp add: arrived_def)

lemma arrived_snoc:
  "arrived jp i (inps @ [inp]) = arrived jp i inps @ msg_op jp i inp"
  by simp

lemma op_values_append [simp]: "op_values (xs @ ys) = op_values xs @ op_values ys"
  by (induction xs rule: op_values.induct) simp_all

lemma op_values_map_EvOp [simp]: "op_values (map EvOp xs) = xs"
  by (induction xs) simp_all

lemma op_values_filter_data: "op_values (filter is_data evs) = op_values evs"
  by (induction evs rule: op_values.induct) simp_all

lemma ord_inv_init: "ord_inv jp i [] (new_subscription i)"
  by (simp add: ord_inv_def arrived_def handler_defs world_simps)

text \<open>The metadata, subscribe and fetch callbacks are made one after the other, once
  each: a step never adds to their number, and a \<open>findById\<close> reply uses one up.
  So a run has at most one such reply.\<close>

lemma calls3_step:
  assumes "step jp inp w = Some w'"
  shows "calls3 w' + (if is_fetch_reply inp then 1 else 0) \<le> calls3 w"
proof (cases inp)
  case (Get_reply e d)
  with assms show ?thesis
    by (auto simp: calls3_def complete_def get_cb_def subscribe_def world_simps
        split: option.splits if_splits dest!: multi_member_split)
next
  case (Subscribe_reply e)
  with assms show ?thesis
    by (auto simp: calls3_def complete_def sub_cb_def fetch_def world_simps
        split: option.splits if_splits dest!: multi_member_split)
next
  case (Fetch_reply e d)
  with assms show ?thesis
    by (auto simp: calls3_def complete_def fetch_cb_def emit_payload_def Let_def world_simps
        split: option.splits if_splits dest!: multi_member_split)
next
  case (Unsubscribe_reply e)
  with assms show ?thesis
    by (auto simp: calls3_def complete_def unsub_cb_def world_simps split: option.splits if_splits)
next
  case (Message ch m)
  with assms show ?thesis
    by (auto simp: calls3_def on_message_def world_simps split: option.splits if_splits)
next
  case Destroy
  with assms show ?thesis
    by (auto simp: calls3_def destroy_def world_simps split: if_splits)
qed

lemma run_calls3:
  "run jp inps w = Some w' \<Longrightarrow> calls3 w' + length (filter is_fetch_reply inps) \<le> calls3 w"
proof (induction inps arbitrary: w)
  case Nil
  then show ?case by simp
next
  case (Cons inp inps)
  then obtain w1 where s: "step jp inp w = Some w1" and r: "run jp inps w1 = Some w'"
    by (auto split: Option.bind_splits)
  from Cons.IH [OF r] calls3_step [OF s] show ?case by (cases "is_fetch_reply inp") auto
qed

lemma run_fetch_once:
  "run jp inps (new_subscription i) = Some w \<Longrightarrow> length (filter is_fetch_reply inps) \<le> 1"
  using run_calls3 [of jp inps "new_subscription i" w] by (simp add: calls3_def run_eval)

text \<open>Once the payload is set, the fetch callback is no longer outstanding: the payload
  event is in the trace, and the budget leaves no room for a fetch.\<close>

lemma payload_no_fetch:
  assumes "reach jp i w" and "ord_inv jp i inps w" and "payload w = Some d"
  shows "CFetch \<notin># pending w"
proof -
  from assms(2,3) have "\<exists>xs ys. filter is_data (trace w) = xs @ EvPayload d # ys"
    by (auto simp: ord_inv_def)
  then have "EvPayload d \<in> set (filter is_data (trace w))"
    by (metis in_set_conv_decomp)
  then have "EvPayload d \<in> set (trace w)" by simp
  then have "\<exists>x\<in>set (trace w). is_payload x"
    by (intro bexI [of _ "EvPayload d"]) simp_all
  then have "filter is_payload (trace w) \<noteq> []"
    by (simp add: filter_empty_conv)
  with budget_le_one [OF assms(1)] have "count (pending w) CFetch = 0"
    by (cases "filter is_payload (trace w)") (auto simp: budget_def)
  then show ?thesis by (simp add: not_in_iff)
qed

lemma ord_inv_SomeI:
  assumes "payload w = Some d" and "\<not> payload_hook w" and "ops w = Some []"
    and "inps = pre @ Fetch_reply None (Some d) # post"
    and "filter is_data (trace w) =
           map EvOp (arrived jp i pre) @ EvPayload d # map EvOp (arrived jp i post)"
  shows "ord_inv jp i inps w"
proof -
  from assms(4,5) have "\<exists>pre post. inps = pre @ Fetch_reply None (Some d) # post \<and>
      filter is_data (trace w) =
        map EvOp (arrived jp i pre) @ EvPayload d # map EvOp (arrived jp i post)"
    by blast
  with assms(1,2,3) show ?thesis by (simp add: ord_inv_def)
qed

text \<open>Handlers that touch neither the payload, the hook, the buffer nor the data events
  of the trace keep the invariant.\<close>

lemma ord_inv_quiet:
  assumes "ord_inv jp i inps w" and "msg_op jp i inp = []"
    and "payload w' = payload w" and "payload_hook w' = payload_hook w" and "ops w' = ops w"
    and "filter is_data (trace w') = filter is_data (trace w)"
  shows "ord_inv jp i (inps @ [inp]) w'"
proof (cases "payload w")
  case None
  with assms show ?thesis by (simp add: ord_inv_def arrived_snoc)
next
  case (Some d)
  with assms(1) obtain pre post where p: "inps = pre @ Fetch_reply None (Some d) # post" and
    t: "filter is_data (trace w) = map EvOp (arrived jp i pre) @ EvPayload d #
          map EvOp (arrived jp i post)" and "\<not> payload_hook w" and "ops w = Some []"
    by (auto simp: ord_inv_def)
  moreover from p have "inps @ [inp] = pre @ Fetch_reply None (Some d) # (post @ [inp])"
    by simp
  moreover from t assms(2,6) have "filter is_data (trace w') = map EvOp (arrived jp i pre) @
      EvPayload d # map EvOp (arrived jp i (post @ [inp]))"
    by simp
  ultimately show ?thesis
    using Some assms(2,3,4,5)
    by (intro ord_inv_SomeI [where pre = pre and post = "post @ [inp]"]) simp_all
qed

lemma ord_inv_fetch:
  assumes r: "reach jp i w" and inv: "ord_inv jp i inps w" and g: "CFetch \<in># pending w"
    and ex: "exn w = None"
  shows "ord_inv jp i (inps @ [Fetch_reply e doc]) (fetch_cb e doc (complete CFetch w))"
proof (cases "ready w = Subscribed \<and> e = None \<and> doc \<noteq> None")
  case True
  then obtain d where e: "e = None" and d: "doc = Some d" and s: "ready w = Subscribed" by auto
  from payload_no_fetch [OF r inv] g have p: "payload w = None" by fastforce
  with inv have "payload_hook w" and o: "ops w = Some (arrived jp i inps)"
    and t: "filter is_data (trace w) = []"
    by (auto simp: ord_inv_def)
  with s ex have "fetch_cb e doc (complete CFetch w) =
      (complete CFetch w)\<lparr>payload := Some d, payload_hook := False, ops := Some [],
        trace := trace w @ map EvOp (arrived jp i inps) @ [EvPayload d]\<rparr>"
    unfolding e d
    by (simp add: fetch_cb_def emit_payload_def emit_ops_def fold_emit_ops complete_def
        world_simps)
  moreover have "inps @ [Fetch_reply e doc] = inps @ Fetch_reply None (Some d) # []"
    using e d by simp
  ultimately show ?thesis
    using t by (intro ord_inv_SomeI [where d = d and pre = inps and post = "[]"])
      (simp_all add: world_simps)
next
  case False
  then have "payload (fetch_cb e doc (complete CFetch w)) = payload w \<and>
      payload_hook (fetch_cb e doc (complete CFetch w)) = payload_hook w \<and>
      ops (fetch_cb e doc (complete CFetch w)) = ops w \<and>
      filter is_data (trace (fetch_cb e doc (complete CFetch w))) = filter is_data (trace w)"
    by (auto simp: fetch_cb_def not_found_msg_def complete_def world_simps split: option.splits)
  then show ?thesis
    using ord_inv_quiet [OF inv, of "Fetch_reply e doc"] by simp
qed

lemma ord_inv_message:
  assumes r: "reach jp i w" and inv: "ord_inv jp i inps w" and l: "listening w"
  shows "ord_inv jp i (inps @ [Message ch m]) (on_message jp ch m w)"
proof -
  from r have sid: "sid w = i" by (simp add: reach_coord_inv [THEN coord_inv_def [THEN iffD1]])
  show ?thesis
  proof (cases "ch = i \<and> jp m \<noteq> None")
    case True
    then obtain v where c: "ch = i" and v: "jp m = Some v" by auto
    show ?thesis
    proof (cases "payload w")
      case None
      with inv have o: "ops w = Some (arrived jp i inps)" and "payload_hook w"
        and "filter is_data (trace w) = []"
        by (simp_all add: ord_inv_def)
      moreover have "on_message jp ch m w = w\<lparr>ops := Some (arrived jp i inps @ [v])\<rparr>"
        using on_message_buffer [of jp m v w, OF v None o] sid c by simp
      ultimately show ?thesis using None c v by (simp add: ord_inv_def)
    next
      case (Some d)
      with inv obtain pre post where p: "inps = pre @ Fetch_reply None (Some d) # post" and
        t: "filter is_data (trace w) = map EvOp (arrived jp i pre) @ EvPayload d #
              map EvOp (arrived jp i post)"
        by (auto simp: ord_inv_def)
      have w': "on_message jp ch m w = emit (EvOp v) w"
        using on_message_live [of jp m v w, OF v] Some sid c by simp
      have p': "inps @ [Message ch m] = pre @ Fetch_reply None (Some d) # (post @ [Message ch m])"
        using p by simp
      have t': "filter is_data (trace (emit (EvOp v) w)) =
          map EvOp (arrived jp i pre) @ EvPayload d # map EvOp (arrived jp i (post @ [Message ch m]))"
        using t c v by (simp add: world_simps)
      from Some inv have "payload_hook w = (payload w = None)" "ops w = Some []"
        by (simp_all add: ord_inv_def)
      with Some p' t' show ?thesis
        unfolding w' by (intro ord_inv_SomeI [OF _ _ _ p' t']) (simp_all add: world_simps)
    qed
  next
    case False
    then have "msg_op jp i (Message ch m) = []" by (auto split: option.split)
    moreover from False sid have "payload (on_message jp ch m w) = payload w \<and>
        payload_hook (on_message jp ch m w) = payload_hook w \<and>
        ops (on_message jp ch m w) = ops w \<and>
        filter is_data (trace (on_message jp ch m w)) = filter is_data (trace w)"
      by (auto simp: on_message_def world_simps split: option.splits)
    ultimately show ?thesis
      using ord_inv_quiet [OF inv] by blast
  qed
qed

lemma get_cb_quiet:
  "payload (get_cb jp e d w) = payload w \<and> payload_hook (get_cb jp e d w) = payload_hook w \<and>
   ops (get_cb jp e d w) = ops w \<and> filter is_data (trace (get_cb jp e d w)) = filter is_data (trace w)"
  by (simp add: get_cb_def subscribe_def world_simps split: option.split)

lemma sub_cb_quiet:
  "payload (sub_cb e w) = payload w \<and> payload_hook (sub_cb e w) = payload_hook w \<and>
   ops (sub_cb e w) = ops w \<and> filter is_data (trace (sub_cb e w)) = filter is_data (trace w)"
  by (simp add: sub_cb_def fetch_def world_simps split: option.split)

lemma unsub_cb_quiet:
  "payload (unsub_cb e w) = payload w \<and> payload_hook (unsub_cb e w) = payload_hook w \<and>
   ops (unsub_cb e w) = ops w \<and> filter is_data (trace (unsub_cb e w)) = filter is_data (trace w)"
  by (simp add: unsub_cb_def world_simps split: option.split)

lemma complete_quiet [simp]:
  "payload (complete c w) = payload w" "payload_hook (complete c w) = payload_hook w"
  "ops (complete c w) = ops w" "trace (complete c w) = trace w"
  by (simp_all add: complete_def)

lemma ord_inv_step:
  assumes r: "reach jp i w" and inv: "ord_inv jp i inps w" and nd: "inp \<noteq> Destroy"
    and st: "step jp inp w = Some w'"
  shows "ord_inv jp i (inps @ [inp]) w'"
proof (cases inp)
  case (Get_reply e d)
  with st have w': "w' = get_cb jp e d (complete CGet w)" by (simp split: if_splits)
  show ?thesis unfolding w' Get_reply
    by (rule ord_inv_quiet [OF inv]) (simp_all add: get_cb_quiet)
next
  case (Subscribe_reply e)
  with st have w': "w' = sub_cb e (complete CSub w)" by (simp split: if_splits)
  show ?thesis unfolding w' Subscribe_reply
    by (rule ord_inv_quiet [OF inv]) (simp_all add: sub_cb_quiet)
next
  case (Fetch_reply e d)
  with st have g: "CFetch \<in># pending w" and x: "exn w = None"
    and w': "w' = fetch_cb e d (complete CFetch w)"
    by (auto split: if_splits)
  show ?thesis unfolding Fetch_reply w' by (rule ord_inv_fetch [OF r inv g x])
next
  case (Unsubscribe_reply e)
  with st have w': "w' = unsub_cb e (complete CUnsub w)" by (simp split: if_splits)
  show ?thesis unfolding w' Unsubscribe_reply
    by (rule ord_inv_quiet [OF inv]) (simp_all add: unsub_cb_quiet)
next
  case (Message ch m)
  with st have l: "listening w" and w': "w' = on_message jp ch m w"
    by (auto split: if_splits)
  show ?thesis unfolding Message w' by (rule ord_inv_message [OF r inv l])
next
  case Destroy
  with nd show ?thesis by simp
qed

lemma run_ord_inv:
  "run jp inps (new_subscription i) = Some w \<Longrightarrow> Destroy \<notin> set inps \<Longrightarrow> ord_inv jp i inps w"
proof (induction inps arbitrary: w rule: rev_induct)
  case Nil
  then have "w = new_subscription i" by simp
  then show ?case by (simp add: ord_inv_init)
next
  case (snoc inp inps)
  then obtain w0 where r0: "run jp inps (new_subscription i) = Some w0"
    and st: "step jp inp w0 = Some w"
    by (auto simp: run_snoc_Some)
  from reach_run_from [OF reach_init r0] have r: "reach jp i w0" .
  from snoc.prems(2) have nd: "Destroy \<notin> set inps" and ne: "inp \<noteq> Destroy" by auto
  from snoc.IH [OF r0 nd] have "ord_inv jp i inps w0" .
  from ord_inv_step [OF r this ne st] show ?case .
qed

text \<open>C1: in a run without \<open>destroy()\<close>, every op that arrived on the subscription's
  channel is either emitted or still buffered, exactly once each, in arrival order: no
  op is lost, duplicated or reordered.\<close>

theorem ops_exactly_arrived:
  assumes "run jp inps (new_subscription i) = Some w" and "Destroy \<notin> set inps"
  shows "\<exists>buf. ops w = Some buf \<and> op_values (trace w) @ buf = arrived jp i inps"
proof -
  from assms have inv: "ord_inv jp i inps w" by (rule run_ord_inv)
  show ?thesis
  proof (cases "payload w")
    case None
    with inv have "ops w = Some (arrived jp i inps)" and "filter is_data (trace w) = []"
      by (auto simp: ord_inv_def)
    then show ?thesis
      using op_values_filter_data [of "trace w"] by simp
  next
    case (Some d)
    with inv obtain pre post where "ops w = Some []" and p: "inps = pre @ Fetch_reply None (Some d) # post"
      and t: "filter is_data (trace w) = map EvOp (arrived jp i pre) @ EvPayload d #
            map EvOp (arrived jp i post)"
      by (auto simp: ord_inv_def)
    moreover from t p have "op_values (filter is_data (trace w)) = arrived jp i inps"
      by simp
    then have "op_values (trace w) = arrived jp i inps"
      by (simp add: op_values_filter_data)
    ultimately show ?thesis by simp
  qed
qed

text \<open>C2: in a run without \<open>destroy()\<close>, once the payload is set, the input
  sequence splits at the one \<open>findById\<close> reply that delivered it, and the listeners have
  received, as data events, exactly the ops that arrived before that reply, then the
  payload, then the ops that arrived after it: the ops buffered while the fetch was
  outstanding reach the listeners before the payload.\<close>

theorem listeners_view:
  assumes "run jp inps (new_subscription i) = Some w" and "Destroy \<notin> set inps"
    and "payload w = Some d"
  shows "\<exists>pre post. inps = pre @ Fetch_reply None (Some d) # post \<and>
           filter is_fetch_reply pre = [] \<and>
           filter is_data (trace w) =
             map EvOp (arrived jp i pre) @ EvPayload d # map EvOp (arrived jp i post)"
proof -
  from run_ord_inv [OF assms(1,2)] assms(3) obtain pre post where
    p: "inps = pre @ Fetch_reply None (Some d) # post" and
    t: "filter is_data (trace w) =
          map EvOp (arrived jp i pre) @ EvPayload d # map EvOp (arrived jp i post)"
    by (auto simp: ord_inv_def)
  from run_fetch_once [OF assms(1)] p have "filter is_fetch_reply pre = []" by simp
  with p t show ?thesis by blast
qed

end
