(* ===== verification/Stream_Spec.thy ===== *)
theory Stream_Spec
  imports Ordering
begin

text \<open>
  The event stream the spec promises to a subscriber (its sections 4 and 7): either
  nothing yet, or a single error and nothing after it, or the payload followed by ops,
  possibly ended by one error. \<open>stream_ok\<close> is that language as an executable
  predicate on event lists. The theorem below gives the exact runs in which the data
  events the code emits are a word of this language.
\<close>

fun ops_tail :: "('v, 'd) event list \<Rightarrow> bool" where
  "ops_tail [] = True"
| "ops_tail [EvError _] = True"
| "ops_tail (EvOp _ # evs) = ops_tail evs"
| "ops_tail _ = False"

fun stream_ok :: "('v, 'd) event list \<Rightarrow> bool" where
  "stream_ok [] = True"
| "stream_ok [EvError _] = True"
| "stream_ok (EvPayload _ # evs) = ops_tail evs"
| "stream_ok _ = False"

lemma ops_tail_map_EvOp [simp]: "ops_tail (map EvOp xs)"
  by (induction xs) simp_all

lemma stream_ok_data:
  "stream_ok (map EvOp xs @ EvPayload d # map EvOp ys) \<longleftrightarrow> xs = []"
  by (cases xs) simp_all

text \<open>C4: in a run without \<open>destroy()\<close> in which the payload has been emitted,
  split at its first \<open>findById\<close> reply, the listeners' data events follow the spec
  exactly when no op arrived on the channel before that reply: an op that arrived while
  the fetch was outstanding is emitted before the payload, which the spec does not allow.\<close>

theorem stream_refinement_exact:
  assumes "run jp inps (new_subscription i) = Some w" and "Destroy \<notin> set inps"
    and "payload w = Some d"
    and "inps = pre @ Fetch_reply e doc # post" and "filter is_fetch_reply pre = []"
  shows "stream_ok (filter is_data (trace w)) \<longleftrightarrow> arrived jp i pre = []"
proof -
  from run_ord_inv [OF assms(1,2)] assms(3) obtain pre' post' where
    p: "inps = pre' @ Fetch_reply None (Some d) # post'" and
    t: "filter is_data (trace w) =
          map EvOp (arrived jp i pre') @ EvPayload d # map EvOp (arrived jp i post')"
    by (auto simp: ord_inv_def)
  from run_fetch_once [OF assms(1)] p have "filter is_fetch_reply pre' = []" by simp
  with p assms(4,5) have "pre' = pre"
    using split_first_unique [of pre' "Fetch_reply None (Some d)" post' pre "Fetch_reply e doc"
        post is_fetch_reply] by simp
  with t show ?thesis by (simp add: stream_ok_data)
qed

end
