(* ===== verification/Emitter.thy ===== *)
theory Emitter
  imports Coordinator
begin

text \<open>
  The part of Node's \<open>EventEmitter\<close> that \<open>Subscription\<close> inherits (line 33) and
  relies on. The listeners of an emitter are a list of registrations in registration
  order: an event name, whether the registration was made with \<open>once\<close>, and the
  listener. \<open>emit(name, arg)\<close> takes a copy of the listeners of that name, removes
  the \<open>once\<close> registrations among them, and calls them in order; a listener that
  throws ends the \<open>emit\<close>. An \<open>error\<close> event with no listener throws the error
  (\<open>ERR_UNHANDLED_ERROR\<close> when it is not an \<open>Error\<close>). Two listeners occur: the
  \<open>once('payload', emitOps)\<close> of the constructor (line 26), and the listeners of the
  owner, who observes the events; an owner's call of a listener appends the event to
  \<open>trace\<close>.
\<close>

datatype ev_name = NPayload | NOp | NError

datatype listener_kind = LEmitOps | LOwner

type_synonym registry = "(ev_name \<times> bool \<times> listener_kind) list"

fun ev_name_of :: "('v, 'd) event \<Rightarrow> ev_name" where
  "ev_name_of (EvPayload _) = NPayload"
| "ev_name_of (EvOp _) = NOp"
| "ev_name_of (EvError _) = NError"

fun run_listeners ::
  "('v, 'd) event \<Rightarrow> listener_kind list \<Rightarrow> ('v, 'd) world \<Rightarrow> ('v, 'd) world" where
  "run_listeners ev [] w = w"
| "run_listeners ev (k # ks) w =
     (let w1 = (case k of LEmitOps \<Rightarrow> emit_ops w | LOwner \<Rightarrow> emit ev w)
      in if exn w1 = None then run_listeners ev ks w1 else w1)"

definition node_emit ::
  "('v, 'd) event \<Rightarrow> registry \<Rightarrow> ('v, 'd) world \<Rightarrow> registry \<times> ('v, 'd) world" where
  "node_emit ev reg w =
     (let hs = filter (\<lambda>r. fst r = ev_name_of ev) reg in
      if hs = [] \<and> ev_name_of ev = NError then
        (reg, throw (UnhandledError (case ev of EvError e \<Rightarrow> e | _ \<Rightarrow> ErrNull)) w)
      else
        (filter (\<lambda>r. \<not> (fst r = ev_name_of ev \<and> fst (snd r))) reg,
         run_listeners ev (map (snd \<circ> snd) hs) w))"

text \<open>The owner listens to the three events it is offered.\<close>

definition owner_reg :: registry where
  "owner_reg = [(NPayload, False, LOwner), (NOp, False, LOwner), (NError, False, LOwner)]"

text \<open>The registrations of a subscription: the constructor's \<open>once\<close>, while it has not
  fired, before the owner's.\<close>

definition reg_of :: "('v, 'd) world \<Rightarrow> registry" where
  "reg_of w = (if payload_hook w then [(NPayload, True, LEmitOps)] else []) @ owner_reg"

subsection \<open>The model's events are Node's\<close>

lemma emit_ops_hook [simp]:
  "emit_ops (w\<lparr>payload_hook := b\<rparr>) = (emit_ops w)\<lparr>payload_hook := b\<rparr>"
  by (simp add: emit_ops_def fold_emit_ops world_simps split: option.split)

lemma payload_hook_emit_ops [simp]: "payload_hook (emit_ops w) = payload_hook w"
  by (simp add: emit_ops_def fold_emit_ops world_simps split: option.split)

text \<open>Node's \<open>emit\<close> on the registrations the constructor and the owner make is
  the model's: for \<open>payload\<close> it runs the constructor's \<open>once\<close> listener
  \<open>emitOps\<close> first, removes it, and then the owner's listener, which is
  \<open>Subscription.emit_payload\<close>; for \<open>op\<close> and \<open>error\<close> it is
  \<open>Subscription.emit\<close>, and the registrations stay.\<close>

lemma node_emit_refines:
  "node_emit (EvPayload d) (reg_of w) w =
     (reg_of (emit_payload d w), (emit_payload d w)\<lparr>payload_hook := payload_hook w\<rparr>) \<and>
   node_emit (EvOp v) (reg_of w) w = (reg_of w, emit (EvOp v) w) \<and>
   node_emit (EvError e) (reg_of w) w = (reg_of w, emit (EvError e) w)"
  by (cases "payload_hook w")
     (simp_all add: node_emit_def reg_of_def owner_reg_def emit_payload_def Let_def world_simps)

lemma node_emit_unhandled:
  "node_emit (EvError e) (filter (\<lambda>r. fst r \<noteq> NError) reg) w =
     (filter (\<lambda>r. fst r \<noteq> NError) reg, throw (UnhandledError e) w)"
  by (simp add: node_emit_def filter_empty_conv)

subsection \<open>One error per turn, and last\<close>

text \<open>C10: a turn of the event loop that emits an error event emits nothing else:
  the error is the one event of the turn. Every error path of the code is a
  \<open>return self.emit('error', ...)\<close> (lines 45, 50, 69, 87, 90, 111-112, 153) taken
  before the callback has emitted anything, and it ends the callback. So without an
  owner's \<open>error\<close> listener, where Node throws at that \<open>emit\<close>
  (\<open>node_emit_unhandled\<close>), the throw loses no other event of the turn.\<close>

theorem step_error_last:
  assumes "step jp inp w = Some w'" and "EvError e \<in> set (drop (length (trace w)) (trace w'))"
  shows "trace w' = trace w @ [EvError e]"
  using assms
  by (cases inp) (auto simp: handler_defs world_simps complete_def fold_emit_ops Let_def
                       split: if_splits option.splits)

end
