(* ===== verification/Spec2Isabelle.thy ===== *)
theory Spec2Isabelle
  imports Replay_Loop Fifo Stream_Spec Emitter
begin

text \<open>
  \<^bold>\<open>A verification development of \<open>src/subscription.js\<close> (mydb).\<close>

  \<^bold>\<open>The program.\<close> One class, \<open>Subscription\<close>, coordinates a live document:
  the constructor asks Redis for the subscription's metadata (\<open>get\<close>); the reply's
  callback subscribes to the pub/sub channel named by the id and attaches \<open>onMessage\<close>
  to the shared Redis connection (\<open>subscribe\<close>); the subscribe acknowledgement
  fetches the document from Mongo (\<open>fetch\<close>); the document is emitted as
  \<open>payload\<close>. Messages on the channel are parsed and emitted as \<open>op\<close> events, or
  buffered in \<open>this.ops\<close> while no payload is set; a \<open>once('payload')\<close> listener
  registered by the constructor (\<open>emitOps\<close>) flushes the buffer. \<open>destroy()\<close>
  unsubscribes, clears the buffer and the payload, and detaches the listener. All of
  this runs on one event loop, in whatever order the collaborators answer.

  \<^bold>\<open>The theories.\<close>
  \<^item> \<open>Prelude\<close>: names of the string-valued types and the theorem collections
    \<open>handler_defs\<close> and \<open>world_simps\<close>.
  \<^item> \<open>Js_Values\<close>: the JavaScript semantics the code relies on: property reads on a
    string (\<open>str_member\<close>), \<open>||\<close> (\<open>js_or\<close>), ToString (\<open>js_to_string\<close>) and the
    argument coercion of \<open>JSON.parse\<close> (\<open>json_arg\<close>). \<open>JSON.parse\<close> itself is a
    parameter \<open>jp :: string \<Rightarrow> 'v option\<close> of every definition that parses.
  \<^item> \<open>Subscription\<close>: the object's fields as the record \<open>subscription\<close>
    (\<open>readyState\<close> is \<open>ready\<close>, \<open>this.ops\<close> is \<open>ops\<close> with \<open>None\<close> for
    \<open>null\<close>, \<open>this.fields\<close> is \<open>sel_fields\<close>, the registration of \<open>onMessage\<close>
    and of the \<open>once\<close> hook are \<open>listening\<close> and \<open>payload_hook\<close>), extended by the
    record \<open>world\<close> with what the object changes outside itself: the events its
    external listeners receive (\<open>trace\<close>), its calls to the collaborators
    (\<open>issued\<close>), the callbacks outstanding (\<open>pending\<close>, a multiset), and the
    uncaught exception that ends the process (\<open>exn\<close>). One definition per method and
    per callback: \<open>new_subscription\<close> (constructor, lines 17-27), \<open>get\<close> and
    \<open>get_cb\<close> (41-57), \<open>subscribe\<close> and \<open>sub_cb\<close> (65-74), \<open>fetch\<close>,
    \<open>fetch_cb\<close> and \<open>emit_payload\<close> (82-96), \<open>on_message\<close> (104-122),
    \<open>emit_ops\<close> (130-137), \<open>destroy\<close> and \<open>unsub_cb\<close> (145-159), followed by the
    behaviour of each handler on each branch, errors included.
  \<^item> \<open>Coordinator\<close>: the event loop. \<open>step\<close> runs one input: the callback of an
    outstanding call with the result the collaborator chose, a message of the shared
    connection while \<open>onMessage\<close> is attached, or a call of \<open>destroy()\<close>; nothing
    runs after an uncaught exception. \<open>run\<close> folds \<open>step\<close> over an input list and
    \<open>reach\<close> is the inductive set of worlds some interleaving reaches. Invariants by
    rule induction: the lifecycle budget (\<open>reach_budget\<close>: at most one of the
    metadata, subscribe and fetch callbacks outstanding and the payload emitted), the
    structural invariant \<open>coord_inv\<close> (fields, buffer and listener agree; every call
    is well-formed), and the closure of torn-down worlds. The races of \<open>destroy()\<close>
    with outstanding callbacks, and the non-terminal errors, are stated for every world
    in the state where they start (\<open>race_destroy_subscribing_throws\<close>,
    \<open>race_double_unsubscribe\<close>, \<open>destroy_discovering_ignored\<close>,
    \<open>errors_not_terminal\<close>).
  \<^item> \<open>Ordering\<close>: the buffering and replay of ops, with the abstract specification
    \<open>arrived\<close> (the parsed messages of the channel in arrival order), over runs without
    \<open>destroy()\<close>: no op is lost, duplicated or reordered (\<open>ops_exactly_arrived\<close>),
    and, with the input split at the one \<open>findById\<close> reply that delivered the payload
    (at most one arrives, by a count of the outstanding calls), the listeners see the
    ops that arrived before that reply, then the payload, then the ops that arrived
    after it (\<open>listeners_view\<close>).
  \<^item> \<open>Replay_Loop\<close>: the \<open>for\<close> loop of \<open>emitOps\<close> as written
    (\<open>emit_ops_loop\<close>, \<open>emit_ops_js\<close>, lines 130-137): the bound
    \<open>this.ops.length\<close> is read again before every iteration, and every
    \<open>emit('op')\<close> runs the external listeners, whose reaction is a parameter
    (\<open>op_listener\<close>: whether a listener calls \<open>destroy()\<close>). The loop is a
    \<open>function\<close> with a measure on the part of the buffer still to emit; its domain is
    proved total. For listeners that do not call back it equals \<open>emit_ops\<close>; it emits
    only a prefix of the remaining buffer; a listener that calls \<open>destroy()\<close> makes
    the loop test throw. \<open>fetch_cb_js\<close> is the \<open>findById\<close> callback over this
    loop: it equals \<open>fetch_cb\<close> for listeners that do not call back, and with one
    that calls \<open>destroy()\<close> the payload is never delivered. Buffering by
    \<open>onMessage\<close> followed by the replay is a round trip.
  \<^item> \<open>Shared\<close>: several objects of one server on the shared connection
    \<open>server.redisSub\<close> (line 20). The record \<open>conn\<close> holds the objects by address
    and the connection's set of subscribed channels, which the subscribe and unsubscribe
    replies change (\<open>chan_effect\<close>); a published message goes to every attached
    \<open>onMessage\<close> (\<open>deliver\<close>, line 73). \<open>hub_step\<close> runs one object's
    input through \<open>Coordinator.step\<close>, so every object of a reachable server is a
    reachable lone subscription (\<open>hub_objects_reach\<close>). With distinct ids every
    subscribed object's channel is subscribed; with a shared id, one object's teardown
    removes the channel for the others, which stay \<open>subscribed\<close> with
    \<open>onMessage\<close> attached while every message on their channel is dropped
    (\<open>shared_id_starvation\<close>).
  \<^item> \<open>Fifo\<close>: the same server on a connection that answers its commands in
    order, as Redis does. The state pairs the \<open>Shared\<close> state with the queue of
    outstanding \<open>subscribe\<close> and \<open>unsubscribe\<close> replies tagged with the calling
    object; \<open>fifo_step\<close> accepts a reply only for the head of the queue. Every state
    it reaches is reachable in \<open>Shared\<close>, and its queue is the list model of each
    object's outstanding callbacks (the invariant \<open>fifo_inv\<close>). With it,
    \<open>unsubscribed\<close> is final (\<open>fifo_unsubscribed_final\<close>): of the two ways the
    code leaves the spec's lifecycle table, only the revival from \<open>unsubscribing\<close>
    survives in-order replies.
  \<^item> \<open>Emitter\<close>: what the code uses of Node's \<open>EventEmitter\<close> (inherited at
    line 33). \<open>node_emit\<close> calls the listeners of one event name in registration
    order, drops \<open>once\<close> registrations, stops at a throwing listener, and throws on an
    \<open>error\<close> event with no listener. On the registrations of the constructor and
    the owner (\<open>reg_of\<close>) it is the model's \<open>emit\<close> and \<open>emit_payload\<close>
    (\<open>node_emit_refines\<close>). This justifies the listener order the rest of the
    development assumes. A turn that emits an error emits nothing else
    (\<open>step_error_last\<close>), so for an owner without an \<open>error\<close> listener, where
    Node throws at that emit (\<open>node_emit_unhandled\<close>), the throw loses no other
    event of the turn.
  \<^item> \<open>Stream_Spec\<close>: the event stream of the spec's sections 4 and 7 (payload,
    then ops, then at most one error, or a single error) as the executable predicate
    \<open>stream_ok\<close>, and the exact runs in which the code's data events satisfy it:
    those in which no op arrives before the \<open>findById\<close> reply.
  \<^item> \<open>Spec2Isabelle\<close> (this theory): scenario C of the spec, the types of the fields
    in every reachable state, and one witness for each theorem with hypotheses, on
    concrete runs (scenario A of the spec, the worlds of the races, two objects sharing
    an id on one connection), all evaluated by \<open>simp\<close>. \<open>demo_parser\<close> stands in for
    \<open>JSON.parse\<close> on the texts these runs use.

  \<^bold>\<open>What the theorems show about the code.\<close> Ops are never lost, duplicated or
  reordered, and the payload is emitted at most once; late fetch results and foreign
  channels are ignored; \<open>destroy()\<close> in state \<open>subscribed\<close> is final and idempotent.
  Against the spec, the code differs in these places, each a theorem: the listeners
  receive the buffered ops \<^emph>\<open>before\<close> the payload (\<open>emitOps\<close> is the first
  payload listener); the metadata is read from the raw string, so every fetch asks for
  collection \<open>undefined\<close> with the subscription id as document id; a metadata parse
  failure emits \<open>null\<close>; a nil metadata reply throws; \<open>destroy()\<close> while subscribing
  is undone by the subscribe acknowledgement, after which the document makes
  \<open>emitOps\<close> throw on the \<open>null\<close> buffer and a second \<open>destroy()\<close> unsubscribes
  twice; \<open>destroy()\<close> during the metadata lookup is ignored; errors are not
  terminal; an \<open>op\<close> listener that calls \<open>destroy()\<close> during
  the replay makes \<open>emitOps\<close> throw before the payload listeners run; and two objects
  with the same id on the shared connection are coupled: the first one's
  \<open>destroy()\<close> silently cuts the second one off its ops. The code's data events meet
  the spec's stream exactly in the runs where no op arrives before the fetch completes.

  \<^bold>\<open>Bounds and termination.\<close> The only loop of the code is the \<open>for\<close> of
  \<open>emitOps\<close>. \<open>Subscription.emit_ops\<close> models it by \<open>fold\<close> over the buffer;
  \<open>Replay_Loop.emit_ops_loop\<close> models it as written, and terminates because the
  remaining length \<open>length ops - i\<close> drops at every iteration, or the buffer becomes
  \<open>null\<close> and the next test throws. No fuel is used. Runs are finite lists of inputs
  of any length, and every theorem holds for all of them.

  \<^bold>\<open>Not modelled.\<close> \<open>JSON.parse\<close>, Redis, Mongo and Node's EventEmitter are
  library code. Their results are arbitrary inputs. The emitter is modelled by the order in
  which it runs listeners, \<open>once\<close>, and the unhandled \<open>error\<close> rule
  (\<open>Emitter\<close>); Redis's pub/sub transport only by the channel set of
  one connection and the order of its replies (\<open>Shared\<close>, \<open>Fifo\<close>). The
  \<open>redis\<close> and \<open>mongo\<close> connections keep the arbitrary completion order of
  \<open>Coordinator\<close>, which the spec's section 5 requires. Listeners that call back into
  the object are modelled for \<open>op\<close> listeners that call \<open>destroy()\<close> inside the
  replay (\<open>Replay_Loop\<close>). A payload listener that calls \<open>destroy()\<close> runs after
  the replay and leaves nothing to model. The server that constructs the objects is not
  part of the repository; \<open>Shared\<close> models it from the spec. \<open>debug\<close> output
  and the \<open>require\<close> lines are not modelled. Outside \<open>Emitter\<close>,
  the model assumes the owner has registered an \<open>error\<close> listener, as the spec's
  \<open>onError\<close> capability presumes; without one, each error event is instead an
  uncaught exception of Node (\<open>Emitter.node_emit_unhandled\<close>). Of EventEmitter, only the registrations the code and its owner make are modelled.

  \<^bold>\<open>Plan.\<close> Modelled, in order of importance:
  \<^item> the buffering and replay of ops, with the exact condition under which the spec's
    stream holds;
  \<^item> the lifecycle and its races;
  \<^item> the handlers' error paths;
  \<^item> several objects on one connection, with the replies in order;
  \<^item> the loop of \<open>emitOps\<close> with reentrant listeners, up to the fetch callback;
  \<^item> the EventEmitter semantics the code relies on.

  Left: nothing of \<open>src/subscription.js\<close> that has behaviour. The lines the map does
  not cover are comments, the two \<open>require\<close> lines, \<open>debug\<close> calls and closing
  braces. \<open>JSON.parse\<close> stays a parameter: it is the runtime's, not the
  repository's.
\<close>

section \<open>Concrete inputs\<close>

text \<open>A stand-in for \<open>JSON.parse\<close> on the texts the scenarios use; every other text
  fails to parse.\<close>

abbreviation meta_text :: string where
  "meta_text \<equiv> ''{\"i\":\"doc1\",\"f\":{},\"c\":\"users\"}''"

abbreviation op1_text :: string where
  "op1_text \<equiv> ''{\"op\":\"set\",\"v\":1}''"

abbreviation op2_text :: string where
  "op2_text \<equiv> ''{\"op\":\"set\",\"v\":2}''"

abbreviation op1 :: js where
  "op1 \<equiv> JObj [(''op'', JStr ''set''), (''v'', JNum 1)]"

abbreviation op2 :: js where
  "op2 \<equiv> JObj [(''op'', JStr ''set''), (''v'', JNum 2)]"

abbreviation doc_x :: js where
  "doc_x \<equiv> JObj [(''name'', JStr ''x'')]"

definition demo_parser :: "js json_parser" where
  "demo_parser = map_of
     [(meta_text, JObj [(''i'', JStr ''doc1''), (''f'', JObj []), (''c'', JStr ''users'')]),
      (op1_text, op1), (op2_text, op2), (''null'', JNull)]"

text \<open>Scenario A of the spec: metadata \<open>{doc1, {}, users}\<close>, subscribe acknowledged,
  two ops arrive, then the fetch returns \<open>{name: x}\<close>.\<close>

definition scenario_a :: "js input list" where
  "scenario_a =
     [Get_reply None (Some meta_text), Subscribe_reply None,
      Message ''sub1'' op1_text, Message ''sub1'' op2_text, Fetch_reply None (Some doc_x)]"

definition world_a :: "(js, js) world" where
  "world_a = the (run demo_parser scenario_a (new_subscription ''sub1''))"

text \<open>The world right after the subscribe acknowledgement, and after one op more.\<close>

definition world_sub :: "(js, js) world" where
  "world_sub = the (run demo_parser [Get_reply None (Some meta_text), Subscribe_reply None]
                      (new_subscription ''sub1''))"

definition world_pre :: "(js, js) world" where
  "world_pre = the (run demo_parser
                      [Get_reply None (Some meta_text), Subscribe_reply None,
                       Message ''sub1'' op1_text] (new_subscription ''sub1''))"

definition world_meta :: "(js, js) world" where
  "world_meta = the (run demo_parser [Get_reply None (Some meta_text)] (new_subscription ''sub1''))"

definition world_b :: "(js, js) world" where
  "world_b = the (run demo_parser [Fetch_reply None (Some doc_x), Unsubscribe_reply None]
                    (destroy world_sub))"

text \<open>The world after \<open>destroy()\<close> while subscribing, with the subscribe call
  still outstanding.\<close>

definition world_torn :: "(js, js) world" where
  "world_torn = the (run demo_parser [Get_reply None (Some meta_text), Destroy]
                       (new_subscription ''sub1''))"

text \<open>Two objects of one server with the same id \<open>sub1\<close> on the shared connection,
  both subscribed and fetched (\<open>hub_s\<close>); \<open>fifo_x\<close> and \<open>fifo_y\<close> below are
  the same on a connection that answers in order, after the first object's
  \<open>destroy()\<close> and after its unsubscribe reply.\<close>

definition shared_prefix :: "js hub_input list" where
  "shared_prefix =
     [New ''sub1'', New ''sub1'', Obj 0 (Get_reply None (Some meta_text)),
      Obj 1 (Get_reply None (Some meta_text)), Obj 0 (Subscribe_reply None),
      Obj 1 (Subscribe_reply None), Obj 0 (Fetch_reply None (Some doc_x)),
      Obj 1 (Fetch_reply None (Some doc_x))]"

definition hub_s :: "(js, js) conn" where
  "hub_s = the (hub_run demo_parser shared_prefix conn0)"

text \<open>Two objects with the ids \<open>sub1\<close> and \<open>sub2\<close>, both subscribed, and the
  world after a message on \<open>sub2\<close>.\<close>

definition hub_d :: "(js, js) conn" where
  "hub_d = the (hub_run demo_parser
     [New ''sub1'', New ''sub2'', Obj 0 (Get_reply None (Some meta_text)),
      Obj 1 (Get_reply None (Some meta_text)), Obj 0 (Subscribe_reply None),
      Obj 1 (Subscribe_reply None)] conn0)"

definition hub_d2 :: "(js, js) conn" where
  "hub_d2 = the (hub_step demo_parser (Publish ''sub2'' op1_text) hub_d)"

text \<open>The same two objects on a connection that answers in order, after the first
  object's \<open>destroy()\<close>, and after its unsubscribe reply.\<close>

definition fifo_x :: "(js, js) fstate" where
  "fifo_x = the (fifo_run demo_parser (shared_prefix @ [Obj 0 Destroy]) fifo0)"

definition fifo_y :: "(js, js) fstate" where
  "fifo_y = the (fifo_step demo_parser (Obj 0 (Unsubscribe_reply None)) fifo_x)"

lemmas scenario_eval = run_eval demo_parser_def

lemmas hub_eval = scenario_eval conn0_def hub_ok_def deliver_def

lemmas fifo_eval = hub_eval fifo0_def sent_def

section \<open>Scenarios\<close>

lemma world_a_run: "run demo_parser scenario_a (new_subscription ''sub1'') = Some world_a"
  by (simp add: world_a_def scenario_a_def scenario_eval)

lemma world_a_reach: "reach demo_parser ''sub1'' world_a"
  by (rule reach_run_from [OF reach_init world_a_run])

lemma world_sub_reach: "reach demo_parser ''sub1'' world_sub"
proof -
  have "run demo_parser [Get_reply None (Some meta_text), Subscribe_reply None]
          (new_subscription ''sub1'') = Some world_sub"
    by (simp add: world_sub_def scenario_eval)
  then show ?thesis by (rule reach_run_from [OF reach_init])
qed

text \<open>C11: scenario C of the spec: when the metadata lookup fails, the only event is one
  error, nothing is outstanding, and no later input changes the world: every input is
  either refused or, for \<open>destroy()\<close>, a no-op.\<close>

theorem scenario_c_metadata_error:
  "\<exists>w. run jp [Get_reply (Some e) d] (new_subscription i) = Some w \<and>
       trace w = [EvError (ErrUpstream e)] \<and> pending w = {#} \<and> ready w = Discoverying \<and>
       (\<forall>inp. step jp inp w = None \<or> step jp inp w = Some w)"
proof -
  let ?w = "get_cb jp (Some e) d (complete CGet (new_subscription i))"
  have r: "run jp [Get_reply (Some e) d] (new_subscription i) = Some ?w"
    by (simp add: run_eval)
  have f: "trace ?w = [EvError (ErrUpstream e)] \<and> pending ?w = {#} \<and> ready ?w = Discoverying"
    by (simp add: run_eval)
  have "step jp inp ?w = None \<or> step jp inp ?w = Some ?w" for inp
    by (cases inp) (simp_all add: run_eval)
  with r f show ?thesis by blast
qed

text \<open>C30: the JavaScript types of the fields in every reachable state: \<open>this.oid\<close>
  and \<open>this.col\<close> are always \<open>undefined\<close>, \<open>readyState\<close> is always set,
  \<open>this.fields\<close> is the object \<open>{}\<close> once the metadata has been read, and
  \<open>this.ops\<close> is an array whenever \<open>onMessage\<close> is attached.\<close>

theorem reach_field_types:
  assumes "reach jp i w"
  shows "oid w = JUndefined \<and> col w = JUndefined \<and> ready w \<noteq> Unset \<and>
         (ready w \<noteq> Discoverying \<longrightarrow> sel_fields w = JObj []) \<and>
         (listening w \<longrightarrow> ops w \<noteq> None)"
  using reach_coord_inv [OF assms] by (simp add: coord_inv_def)

section \<open>Witnesses\<close>

text \<open>Each theorem with hypotheses, applied where its hypotheses hold.\<close>

lemma scenario_a_no_destroy: "Destroy \<notin> set scenario_a"
  by (simp add: scenario_a_def)

theorem ops_exactly_arrived_witness:
  "run demo_parser scenario_a (new_subscription ''sub1'') = Some world_a \<and>
   Destroy \<notin> set scenario_a \<and>
   (\<exists>buf. ops world_a = Some buf \<and>
          op_values (trace world_a) @ buf = arrived demo_parser ''sub1'' scenario_a)"
  using world_a_run scenario_a_no_destroy
    Ordering.ops_exactly_arrived [OF world_a_run scenario_a_no_destroy] by blast

theorem listeners_view_witness:
  "run demo_parser scenario_a (new_subscription ''sub1'') = Some world_a \<and>
   Destroy \<notin> set scenario_a \<and> payload world_a = Some doc_x \<and>
   (\<exists>pre post. scenario_a = pre @ Fetch_reply None (Some doc_x) # post \<and>
      filter is_fetch_reply pre = [] \<and>
      filter is_data (trace world_a) =
        map EvOp (arrived demo_parser ''sub1'' pre) @ EvPayload doc_x #
        map EvOp (arrived demo_parser ''sub1'' post))"
proof -
  have p: "payload world_a = Some doc_x"
    by (simp add: world_a_def scenario_a_def scenario_eval)
  show ?thesis
    using world_a_run scenario_a_no_destroy p
      Ordering.listeners_view [OF world_a_run scenario_a_no_destroy p] by blast
qed

theorem fetch_cb_ops_before_payload_witness:
  "ready world_pre = Subscribed \<and> ops world_pre = Some [op1] \<and> payload_hook world_pre \<and>
   exn world_pre = None \<and>
   fetch_cb None (Some doc_x) world_pre =
     world_pre\<lparr>payload := Some doc_x, payload_hook := False, ops := Some [],
               trace := trace world_pre @ map EvOp [op1] @ [EvPayload doc_x]\<rparr>"
proof -
  have h: "ready world_pre = Subscribed" "ops world_pre = Some [op1]" "payload_hook world_pre"
    "exn world_pre = None"
    by (simp_all add: world_pre_def scenario_eval)
  show ?thesis using h Subscription.fetch_cb_ops_before_payload [OF h] by blast
qed

theorem reach_budget_witness:
  "reach demo_parser ''sub1'' world_a \<and>
   count (pending world_a) CGet + count (pending world_a) CSub + count (pending world_a) CFetch
     + length (filter is_payload (trace world_a)) \<le> 1"
  using world_a_reach Coordinator.reach_budget [OF world_a_reach] by blast

theorem destroy_subscribed_final_witness:
  "reach demo_parser ''sub1'' world_sub \<and> ready world_sub = Subscribed \<and>
   run demo_parser [Fetch_reply None (Some doc_x), Unsubscribe_reply None] (destroy world_sub)
     = Some world_b \<and>
   filter is_data (trace world_b) = filter is_data (trace world_sub) \<and>
   exn world_b = exn world_sub \<and> (ready world_b = Unsubscribing \<or> ready world_b = Unsubscribed)"
proof -
  have s: "ready world_sub = Subscribed"
    by (simp add: world_sub_def scenario_eval)
  have r: "run demo_parser [Fetch_reply None (Some doc_x), Unsubscribe_reply None]
             (destroy world_sub) = Some world_b"
    by (simp add: world_b_def world_sub_def scenario_eval)
  show ?thesis
    using world_sub_reach s r Coordinator.destroy_subscribed_final [OF world_sub_reach s r]
    by blast
qed

theorem destroy_subscribing_revived_witness:
  "exn world_meta = None \<and> ready world_meta = Subscribing \<and> CSub \<in># pending world_meta \<and>
   (\<exists>w'. run demo_parser [Destroy, Subscribe_reply None] world_meta = Some w' \<and>
      ready w' = Subscribed \<and> ops w' = None \<and> CFetch \<in># pending w' \<and>
      issued w' = issued world_meta @
        [ReqUnsubscribe (sid world_meta),
         ReqFetch (col world_meta) (sid world_meta) (sel_fields world_meta)])"
proof -
  have h: "exn world_meta = None" "ready world_meta = Subscribing" "CSub \<in># pending world_meta"
    by (simp_all add: world_meta_def scenario_eval)
  show ?thesis
    using h Coordinator.destroy_subscribing_revived [OF h, of demo_parser] by blast
qed

theorem reach_fetch_request_witness:
  "reach demo_parser ''sub1'' world_a \<and>
   ReqFetch JUndefined ''sub1'' (JObj []) \<in> set (issued world_a) \<and>
   JUndefined = JUndefined \<and> ''sub1'' = ''sub1'' \<and> JObj [] = (JObj [] :: js)"
proof -
  have f: "ReqFetch JUndefined ''sub1'' (JObj []) \<in> set (issued world_a)"
    by (simp add: world_a_def scenario_a_def scenario_eval)
  show ?thesis
    using world_a_reach f Coordinator.reach_fetch_request [OF world_a_reach f] by blast
qed

theorem get_cb_ignores_metadata_witness:
  "demo_parser meta_text = Some (JObj [(''i'', JStr ''doc1''), (''f'', JObj []), (''c'', JStr ''users'')]) \<and>
   get_cb demo_parser None (Some meta_text) (new_subscription ''sub1'' :: (js, js) world) =
     subscribe ((new_subscription ''sub1'')
       \<lparr>oid := JUndefined, sel_fields := JObj [], col := JUndefined\<rparr>)"
proof -
  have h: "demo_parser meta_text =
      Some (JObj [(''i'', JStr ''doc1''), (''f'', JObj []), (''c'', JStr ''users'')])"
    by (simp add: demo_parser_def)
  show ?thesis
    using h Subscription.get_cb_ignores_metadata
      [where jp = demo_parser and s = meta_text and w = "new_subscription ''sub1''", OF h] by blast
qed

theorem get_cb_nil_throws_witness:
  "demo_parser ''null'' = Some JNull \<and>
   get_cb demo_parser None None (new_subscription ''sub1'' :: (js, js) world) =
     throw (TypeError ''Cannot read property 'i' of null'') (new_subscription ''sub1'')"
proof -
  have h: "demo_parser ''null'' = Some JNull" by (simp add: demo_parser_def)
  show ?thesis using h Subscription.get_cb_nil_throws
      [where jp = demo_parser and w = "new_subscription ''sub1''", OF h]
    by blast
qed

theorem get_cb_parse_error_null_witness:
  "demo_parser ''garbage'' = None \<and>
   get_cb demo_parser None (Some ''garbage'') (new_subscription ''sub1'' :: (js, js) world) =
     emit (EvError ErrNull) (new_subscription ''sub1'')"
proof -
  have h: "demo_parser ''garbage'' = None" by (simp add: demo_parser_def)
  show ?thesis
    using h Subscription.get_cb_parse_error_null
      [where jp = demo_parser and s = "''garbage''" and w = "new_subscription ''sub1''", OF h] by blast
qed

theorem fetch_cb_not_found_witness:
  "ready world_sub = Subscribed \<and>
   fetch_cb None None world_sub =
     emit (EvError (ErrNotFound (not_found_msg (col world_sub) (sid world_sub)))) world_sub \<and>
   not_found_msg (col world_sub) (sid world_sub) = ''Document \"undefined.sub1\" not found''"
proof -
  have h: "ready world_sub = Subscribed" by (simp add: world_sub_def scenario_eval)
  have m: "not_found_msg (col world_sub) (sid world_sub) = ''Document \"undefined.sub1\" not found''"
    by (simp add: world_sub_def scenario_eval)
  show ?thesis using h m Subscription.fetch_cb_not_found [OF h] by blast
qed

theorem reach_message_no_throw_witness:
  "reach demo_parser ''sub1'' world_sub \<and>
   step demo_parser (Message ''sub1'' op1_text) world_sub = Some world_pre \<and>
   exn world_pre = None"
proof -
  have st: "step demo_parser (Message ''sub1'' op1_text) world_sub = Some world_pre"
    by (simp add: world_sub_def world_pre_def scenario_eval)
  show ?thesis
    using world_sub_reach st Coordinator.reach_message_no_throw [OF world_sub_reach st] by blast
qed

theorem destroy_then_unsubscribed_witness:
  "exn world_sub = None \<and> (ready world_sub = Subscribing \<or> ready world_sub = Subscribed) \<and>
   (\<exists>w'. run demo_parser [Destroy, Unsubscribe_reply None] world_sub = Some w' \<and>
      ready w' = Unsubscribed \<and> \<not> listening w' \<and> trace w' = trace world_sub \<and>
      ops w' = None \<and> payload w' = None)"
proof -
  have h: "exn world_sub = None" "ready world_sub = Subscribing \<or> ready world_sub = Subscribed"
    by (simp_all add: world_sub_def scenario_eval)
  show ?thesis
    using h Coordinator.destroy_then_unsubscribed [OF h, of demo_parser] by blast
qed

theorem step_ready_edge_witness:
  "reach demo_parser ''sub1'' world_torn \<and>
   step demo_parser (Subscribe_reply None) world_torn =
     Some (sub_cb None (complete CSub world_torn)) \<and>
   ready world_torn = Unsubscribing \<and> ready (sub_cb None (complete CSub world_torn)) = Subscribed \<and>
   (ready (sub_cb None (complete CSub world_torn)) = ready world_torn \<or>
    spec_edge (ready world_torn) (ready (sub_cb None (complete CSub world_torn))) \<or>
    (Subscribe_reply None = (Subscribe_reply None :: js input) \<and>
     (ready world_torn = Unsubscribing \<or> ready world_torn = Unsubscribed) \<and>
     ready (sub_cb None (complete CSub world_torn)) = Subscribed) \<or>
    (Subscribe_reply None = (Unsubscribe_reply None :: js input) \<and>
     ready world_torn = Subscribed \<and>
     ready (sub_cb None (complete CSub world_torn)) = Unsubscribed))"
proof -
  have r: "reach demo_parser ''sub1'' world_torn"
  proof -
    have "run demo_parser [Get_reply None (Some meta_text), Destroy]
            (new_subscription ''sub1'') = Some world_torn"
      by (simp add: world_torn_def scenario_eval)
    then show ?thesis by (rule reach_run_from [OF reach_init])
  qed
  have st: "step demo_parser (Subscribe_reply None) world_torn =
      Some (sub_cb None (complete CSub world_torn))"
    by (simp add: world_torn_def scenario_eval)
  have h: "ready world_torn = Unsubscribing" "ready (sub_cb None (complete CSub world_torn)) = Subscribed"
    by (simp_all add: world_torn_def scenario_eval)
  show ?thesis using r st h Coordinator.step_ready_edge [OF r st] by blast
qed

theorem emit_ops_loop_prefix_witness:
  "ops world_pre = Some [op1] \<and>
   (\<exists>k \<le> length [op1] - 0. trace (emit_ops_loop (\<lambda>_. True) 0 world_pre) =
      trace world_pre @ map EvOp (take k (drop 0 [op1])))"
proof -
  have h: "ops world_pre = Some [op1]" by (simp add: world_pre_def scenario_eval)
  show ?thesis
    using h Replay_Loop.emit_ops_loop_prefix [where r = "\<lambda>_. True" and i = 0, OF h] by blast
qed

theorem emit_ops_loop_terminates_witness:
  "loop_measure 0 world_pre < 2 \<and>
   emit_ops_fuel 2 (\<lambda>_. True) 0 world_pre = Some (emit_ops_loop (\<lambda>_. True) 0 world_pre)"
proof -
  have h: "loop_measure 0 world_pre < 2"
    by (simp add: loop_measure_def world_pre_def scenario_eval)
  show ?thesis using h Replay_Loop.emit_ops_loop_terminates [where r = "\<lambda>_. True", OF h] by blast
qed

theorem buffer_replay_roundtrip_witness:
  "ops world_sub = Some [] \<and> payload world_sub = None \<and>
   demo_parser op1_text = Some op1 \<and> demo_parser op2_text = Some op2 \<and>
   emit_ops (fold (on_message demo_parser (sid world_sub)) [op1_text, op2_text] world_sub) =
     world_sub\<lparr>trace := trace world_sub @ map (EvOp \<circ> the \<circ> demo_parser) [op1_text, op2_text]\<rparr>"
proof -
  have h: "ops world_sub = Some []" "payload world_sub = None"
    by (simp_all add: world_sub_def scenario_eval)
  have p: "demo_parser op1_text = Some op1" "demo_parser op2_text = Some op2"
    by (simp_all add: demo_parser_def)
  then have "\<forall>m\<in>set [op1_text, op2_text]. demo_parser m \<noteq> None" by simp
  with h p show ?thesis using Replay_Loop.buffer_replay_roundtrip [OF h] by blast
qed

lemma hub_d_reach: "hub_reach demo_parser hub_d"
proof -
  have "hub_run demo_parser
     [New ''sub1'', New ''sub2'', Obj 0 (Get_reply None (Some meta_text)),
      Obj 1 (Get_reply None (Some meta_text)), Obj 0 (Subscribe_reply None),
      Obj 1 (Subscribe_reply None)] conn0 = Some hub_d"
    by (simp add: hub_d_def hub_eval)
  then show ?thesis by (rule hub_reach_run [OF hub_init])
qed

theorem hub_subscribed_channel_witness:
  "hub_reach demo_parser hub_d \<and> distinct (map sid (objs hub_d)) \<and> 1 < length (objs hub_d) \<and>
   ready (objs hub_d ! 1) = Subscribed \<and> sid (objs hub_d ! 1) \<in> chans hub_d"
proof -
  have h: "distinct (map sid (objs hub_d))" "1 < length (objs hub_d)"
    "ready (objs hub_d ! 1) = Subscribed"
    by (simp_all add: hub_d_def hub_eval)
  show ?thesis using hub_d_reach h Shared.hub_subscribed_channel [OF hub_d_reach h] by blast
qed

theorem publish_other_channel_witness:
  "hub_step demo_parser (Publish ''sub2'' op1_text) hub_d = Some hub_d2 \<and> 0 < length (objs hub_d) \<and>
   sid (objs hub_d ! 0) \<noteq> ''sub2'' \<and> objs hub_d2 ! 0 = objs hub_d ! 0"
proof -
  have h: "hub_step demo_parser (Publish ''sub2'' op1_text) hub_d = Some hub_d2"
    "0 < length (objs hub_d)" "sid (objs hub_d ! 0) \<noteq> ''sub2''"
    by (simp_all add: hub_d2_def hub_d_def hub_eval)
  show ?thesis using h Shared.publish_other_channel [OF h] by blast
qed

theorem stream_refinement_exact_witness:
  "run demo_parser scenario_a (new_subscription ''sub1'') = Some world_a \<and>
   Destroy \<notin> set scenario_a \<and> payload world_a = Some doc_x \<and>
   scenario_a = take 4 scenario_a @ Fetch_reply None (Some doc_x) # [] \<and>
   filter is_fetch_reply (take 4 scenario_a) = [] \<and>
   arrived demo_parser ''sub1'' (take 4 scenario_a) = [op1, op2] \<and>
   \<not> stream_ok (filter is_data (trace world_a))"
proof -
  have p: "payload world_a = Some doc_x"
    by (simp add: world_a_def scenario_a_def scenario_eval)
  have sp: "scenario_a = take 4 scenario_a @ Fetch_reply None (Some doc_x) # []"
    and f: "filter is_fetch_reply (take 4 scenario_a) = []"
    by (simp_all add: scenario_a_def)
  have a: "arrived demo_parser ''sub1'' (take 4 scenario_a) = [op1, op2]"
    by (simp add: scenario_a_def arrived_def demo_parser_def)
  from Stream_Spec.stream_refinement_exact [OF world_a_run scenario_a_no_destroy p sp f] a
  have "\<not> stream_ok (filter is_data (trace world_a))" by simp
  with world_a_run scenario_a_no_destroy p sp f a show ?thesis by blast
qed

theorem reach_field_types_witness:
  "reach demo_parser ''sub1'' world_a \<and> oid world_a = JUndefined \<and> col world_a = JUndefined \<and>
   ready world_a = Subscribed \<and> sel_fields world_a = JObj [] \<and>
   listening world_a \<and> ops world_a = Some []"
proof -
  have h: "ready world_a = Subscribed" "listening world_a"
    by (simp_all add: world_a_def scenario_a_def scenario_eval)
  have o: "ops world_a = Some []"
    by (simp add: world_a_def scenario_a_def scenario_eval)
  show ?thesis using world_a_reach h o reach_field_types [OF world_a_reach] by auto
qed

theorem fetch_cb_js_equiv_witness:
  "exn world_pre = None \<and>
   fetch_cb_js (\<lambda>_. False) None (Some doc_x) world_pre = fetch_cb None (Some doc_x) world_pre"
proof -
  have h: "exn world_pre = None" by (simp add: world_pre_def scenario_eval)
  show ?thesis using h Replay_Loop.fetch_cb_js_equiv [OF h] by blast
qed

theorem fetch_cb_js_reentrant_destroy_witness:
  "ready world_pre = Subscribed \<and> payload_hook world_pre \<and> ops world_pre = Some [op1] \<and>
   fetch_cb_js (\<lambda>_. True) None (Some doc_x) world_pre =
     throw (TypeError ''Cannot read property 'length' of null'')
       (destroy (emit (EvOp op1) (world_pre\<lparr>payload := Some doc_x, payload_hook := False\<rparr>)))"
proof -
  have h: "ready world_pre = Subscribed" "payload_hook world_pre" "ops world_pre = Some [op1]"
    by (simp_all add: world_pre_def scenario_eval)
  show ?thesis
    using h Replay_Loop.fetch_cb_js_reentrant_destroy
      [where r = "\<lambda>_. True" and d = doc_x, OF h TrueI] by blast
qed

lemma fifo_x_run: "fifo_run demo_parser (shared_prefix @ [Obj 0 Destroy]) fifo0 = Some fifo_x"
  by (simp add: fifo_x_def shared_prefix_def fifo_eval)

lemma fifo_x_reach: "fifo_reach demo_parser (fst fifo_x, snd fifo_x)"
  using fifo_reach_run [OF fifo_init fifo_x_run] by simp

lemma fifo_y_step: "fifo_step demo_parser (Obj 0 (Unsubscribe_reply None)) fifo_x = Some fifo_y"
  by (simp add: fifo_y_def fifo_x_def shared_prefix_def fifo_eval)

lemma fifo_y_reach: "fifo_reach demo_parser (fst fifo_y, snd fifo_y)"
  using fifo_next [OF fifo_reach_run [OF fifo_init fifo_x_run] fifo_y_step] by simp

theorem fifo_unsubscribed_final_witness:
  "fifo_reach demo_parser (fst fifo_y, snd fifo_y) \<and>
   fifo_step demo_parser (Obj 0 Destroy) (fst fifo_y, snd fifo_y) = Some (fst fifo_y, snd fifo_y) \<and>
   0 < length (objs (fst fifo_y)) \<and> ready (objs (fst fifo_y) ! 0) = Unsubscribed \<and>
   ready (objs (fst fifo_y) ! 0) = Unsubscribed"
proof -
  have h: "fifo_step demo_parser (Obj 0 Destroy) (fst fifo_y, snd fifo_y) = Some (fst fifo_y, snd fifo_y)"
    "0 < length (objs (fst fifo_y))" "ready (objs (fst fifo_y) ! 0) = Unsubscribed"
    by (simp_all add: fifo_y_def fifo_x_def shared_prefix_def fifo_eval)
  show ?thesis
    using fifo_y_reach h Fifo.fifo_unsubscribed_final [OF fifo_y_reach h] by blast
qed

lemma world_meta_state:
  "exn world_meta = None \<and> ready world_meta = Subscribing \<and> CSub \<in># pending world_meta \<and>
   payload_hook world_meta"
  by (simp add: world_meta_def scenario_eval)

theorem race_destroy_subscribing_throws_witness:
  "\<exists>w'. run demo_parser [Destroy, Subscribe_reply None, Fetch_reply None (Some doc_x)] world_meta
          = Some w' \<and>
        exn w' = Some (TypeError ''Cannot read property 'length' of null'') \<and>
        trace w' = trace world_meta \<and>
        issued w' = issued world_meta @
          [ReqUnsubscribe (sid world_meta), ReqFetch (col world_meta) (sid world_meta) (sel_fields world_meta)]"
  using world_meta_state Coordinator.race_destroy_subscribing_throws [of world_meta] by blast

theorem race_double_unsubscribe_witness:
  "\<exists>w'. run demo_parser [Destroy, Subscribe_reply None, Destroy] world_meta = Some w' \<and>
        ready w' = Unsubscribing \<and> count (pending w') CUnsub = count (pending world_meta) CUnsub + 2 \<and>
        issued w' = issued world_meta @
          [ReqUnsubscribe (sid world_meta), ReqFetch (col world_meta) (sid world_meta) (sel_fields world_meta),
           ReqUnsubscribe (sid world_meta)]"
  using world_meta_state Coordinator.race_double_unsubscribe [of world_meta] by blast

theorem destroy_discovering_ignored_witness:
  "\<exists>w'. run demo_parser [Destroy, Get_reply None (Some meta_text)]
          (new_subscription ''sub1'' :: (js, js) world) = Some w' \<and>
        ready w' = Subscribing \<and> listening w' \<and> CSub \<in># pending w' \<and>
        issued w' = issued (new_subscription ''sub1'' :: (js, js) world) @ [ReqSubscribe ''sub1'']"
proof -
  have h: "exn (new_subscription ''sub1'' :: (js, js) world) = None"
    "ready (new_subscription ''sub1'' :: (js, js) world) = Discoverying"
    "CGet \<in># pending (new_subscription ''sub1'' :: (js, js) world)"
    "demo_parser meta_text = Some (JObj [(''i'', JStr ''doc1''), (''f'', JObj []), (''c'', JStr ''users'')])"
    by (simp_all add: scenario_eval)
  show ?thesis
    using Coordinator.destroy_discovering_ignored [where jp = demo_parser, OF h]
    by (simp only: sid_new_subscription)
qed

theorem errors_not_terminal_witness:
  "\<exists>w'. run demo_parser [Message ''sub1'' ''garbage'', Message ''sub1'' op1_text] world_a = Some w' \<and>
        trace w' = trace world_a @ [EvError ErrParse, EvOp op1] \<and>
        ready w' = ready world_a \<and> listening w' \<and> exn w' = None"
proof -
  have h: "exn world_a = None" "listening world_a" "payload world_a \<noteq> None"
    "demo_parser ''garbage'' = None" "demo_parser op1_text = Some op1"
    by (simp_all add: world_a_def scenario_a_def scenario_eval)
  have "sid world_a = ''sub1''" by (simp add: world_a_def scenario_a_def scenario_eval)
  with Coordinator.errors_not_terminal [OF h] show ?thesis by simp
qed

theorem step_error_last_witness:
  "step demo_parser (Message ''sub1'' ''garbage'') world_a =
     Some (on_message demo_parser ''sub1'' ''garbage'' world_a) \<and>
   EvError ErrParse \<in> set (drop (length (trace world_a))
                                (trace (on_message demo_parser ''sub1'' ''garbage'' world_a))) \<and>
   trace (on_message demo_parser ''sub1'' ''garbage'' world_a) = trace world_a @ [EvError ErrParse]"
proof -
  have s: "step demo_parser (Message ''sub1'' ''garbage'') world_a =
      Some (on_message demo_parser ''sub1'' ''garbage'' world_a)"
    and e: "EvError ErrParse \<in> set (drop (length (trace world_a))
                                (trace (on_message demo_parser ''sub1'' ''garbage'' world_a)))"
    by (simp_all add: world_a_def scenario_a_def scenario_eval)
  show ?thesis using s e Emitter.step_error_last [OF s e] by blast
qed

theorem shared_id_starvation_witness:
  "(\<exists>h'. hub_run demo_parser [Obj 0 Destroy, Obj 0 (Unsubscribe_reply None)] hub_s = Some h' \<and>
         objs h' ! 1 = objs hub_s ! 1 \<and> ready (objs h' ! 1) = Subscribed \<and>
         listening (objs h' ! 1) \<and> sid (objs hub_s ! 1) \<notin> chans h' \<and>
         (\<forall>m. hub_step demo_parser (Publish (sid (objs hub_s ! 1)) m) h' = Some h')) \<and>
   map_option (\<lambda>h. trace (objs h ! 1)) (hub_step demo_parser (Publish ''sub1'' op1_text) hub_s) =
     Some [EvPayload doc_x, EvOp op1]"
proof -
  have h: "hub_ok hub_s" "0 < length (objs hub_s)" "1 < length (objs hub_s)" "(1::nat) \<noteq> 0"
    "sid (objs hub_s ! 1) = sid (objs hub_s ! 0)"
    "ready (objs hub_s ! 0) = Subscribing \<or> ready (objs hub_s ! 0) = Subscribed"
    "ready (objs hub_s ! 1) = Subscribed" "listening (objs hub_s ! 1)"
    by (simp_all add: hub_s_def shared_prefix_def hub_eval)
  have d: "map_option (\<lambda>h. trace (objs h ! 1)) (hub_step demo_parser (Publish ''sub1'' op1_text) hub_s) =
     Some [EvPayload doc_x, EvOp op1]"
    by (simp add: hub_s_def shared_prefix_def hub_eval)
  show ?thesis using d Shared.shared_id_starvation [where jp = demo_parser, OF h] by blast
qed
end
